(* ===== verification/Quiver_Prelude.thy ===== *)
theory Quiver_Prelude
  imports Main "HOL-Library.Word" "HOL-Library.AList" "HOL-Library.Multiset"
begin

text \<open>
  What the components share: the result of a Go call that may fail or panic, Go's built-in
  map as an association list with distinct keys, the 64-bit signed integers behind
  \<open>int\<close>, \<open>int64\<close> and \<open>time.Duration\<close>, runs of a labelled step relation with the locale
  that lifts one-step invariants to runs, and the locale of the map interface that
  \<open>safe.Map\<close> provides and \<open>cache.Cache\<close> uses.
\<close>

named_theorems gomap \<open>equations of Go's built-in map\<close>
named_theorems int64_conv \<open>conversions of 64-bit integers\<close>

section \<open>Results of a call\<close>

text \<open>
  A Go call returns a value, returns a non-nil \<open>error\<close>, or panics. The panics are the
  run-time errors the modelled code can reach.
\<close>

datatype go_panic =
    NilDereference
  | IndexOutOfRange
  | SliceBoundsOutOfRange
  | SendOnClosedChannel
  | CloseOfClosedChannel
  | NonPositiveTicker
  | BadRegexp

datatype ('e, 'a) outcome = Ok 'a | Err 'e | Panic go_panic

fun obind :: "('e, 'a) outcome \<Rightarrow> ('a \<Rightarrow> ('e, 'b) outcome) \<Rightarrow> ('e, 'b) outcome" where
  "obind (Ok x) f = f x"
| "obind (Err e) f = Err e"
| "obind (Panic p) f = Panic p"

lemma obind_eq_Ok: "obind r f = Ok y \<longleftrightarrow> (\<exists>x. r = Ok x \<and> f x = Ok y)"
  by (cases r) auto

lemma obind_eq_Panic:
  "obind r f = Panic p \<longleftrightarrow> r = Panic p \<or> (\<exists>x. r = Ok x \<and> f x = Panic p)"
  by (cases r) auto

lemma guard_results [simp]:
  "(if c then Err e else r) = Ok v \<longleftrightarrow> \<not> c \<and> r = Ok v"
  "(if c then r else Err e) = Ok v \<longleftrightarrow> c \<and> r = Ok v"
  "(if c then Err e else r) = Panic p \<longleftrightarrow> \<not> c \<and> r = Panic p"
  "(if c then r else Err e) = Panic p \<longleftrightarrow> c \<and> r = Panic p"
  by auto

section \<open>Go's built-in map\<close>

text \<open>
  A \<open>map[K]V\<close> is an association list whose keys are distinct. \<open>range\<close> over a map visits the
  entries in an order the run time chooses anew each time: a loop over a map is a
  recursion over the list, and the order of the list stands for the order chosen, so a
  result is a fact about the map when it does not depend on the order.
\<close>

type_synonym ('k, 'v) gomap = "('k \<times> 'v) list"

definition gm_ok :: "('k, 'v) gomap \<Rightarrow> bool" where
  "gm_ok m \<longleftrightarrow> distinct (map fst m)"

definition gm_get :: "('k, 'v) gomap \<Rightarrow> 'k \<Rightarrow> 'v option" where
  "gm_get m k = map_of m k"

definition gm_set :: "'k \<Rightarrow> 'v \<Rightarrow> ('k, 'v) gomap \<Rightarrow> ('k, 'v) gomap" where
  "gm_set k v m = AList.update k v m"

definition gm_delete :: "'k \<Rightarrow> ('k, 'v) gomap \<Rightarrow> ('k, 'v) gomap" where
  "gm_delete k m = AList.delete k m"

text \<open>The keys \<open>range\<close> may yield: every key once, in any order.\<close>

definition gm_range :: "('k, 'v) gomap \<Rightarrow> 'k list \<Rightarrow> bool" where
  "gm_range m ks \<longleftrightarrow> mset ks = mset (map fst m)"

lemma gm_get_Nil [simp, gomap]: "gm_get [] k = None"
  by (simp add: gm_get_def)

lemma gm_get_Cons [simp]: "gm_get ((k', v) # m) k = (if k = k' then Some v else gm_get m k)"
  by (simp add: gm_get_def)

lemma gm_get_set [simp, gomap]:
  "gm_get (gm_set k v m) k' = (if k' = k then Some v else gm_get m k')"
  by (simp add: gm_get_def gm_set_def update_conv')

lemma gm_get_delete [simp, gomap]:
  "gm_get (gm_delete k m) k' = (if k' = k then None else gm_get m k')"
  by (simp add: gm_get_def gm_delete_def delete_conv')

lemma gm_ok_Nil [simp, intro]: "gm_ok []"
  by (simp add: gm_ok_def)

lemma gm_ok_single [simp]: "gm_ok [e]"
  by (simp add: gm_ok_def)

lemma gm_ok_set [simp, intro]: "gm_ok m \<Longrightarrow> gm_ok (gm_set k v m)"
  by (simp add: gm_ok_def gm_set_def distinct_update)

lemma gm_ok_delete [simp, intro]: "gm_ok m \<Longrightarrow> gm_ok (gm_delete k m)"
  by (simp add: gm_ok_def gm_delete_def distinct_delete)

lemma gm_ok_Cons: "gm_ok ((k, v) # m) \<longleftrightarrow> gm_get m k = None \<and> gm_ok m"
  by (auto simp: gm_ok_def gm_get_def map_of_eq_None_iff)

lemma gm_get_eq_None: "gm_get m k = None \<longleftrightarrow> k \<notin> fst ` set m"
  by (simp add: gm_get_def map_of_eq_None_iff)

lemma gm_get_mem: "gm_get m k = Some v \<Longrightarrow> (k, v) \<in> set m"
  by (simp add: gm_get_def map_of_SomeD)

lemma gm_get_iff: "gm_ok m \<Longrightarrow> gm_get m k = Some v \<longleftrightarrow> (k, v) \<in> set m"
  by (simp add: gm_get_def gm_ok_def)

lemma gm_ball:
  "gm_ok m \<Longrightarrow> (\<forall>(k, v) \<in> set m. P k v) \<longleftrightarrow> (\<forall>k v. gm_get m k = Some v \<longrightarrow> P k v)"
  by (auto simp: gm_get_iff)

lemma gm_set_eq_append: "gm_get m k = None \<Longrightarrow> gm_set k v m = m @ [(k, v)]"
  unfolding gm_get_def gm_set_def by (induction m) (auto split: if_splits)

lemma gm_range_set: "gm_range m ks \<Longrightarrow> set ks = {k. gm_get m k \<noteq> None}"
  by (auto simp: gm_range_def gm_get_eq_None simp flip: set_mset_mset)

lemma gm_range_distinct: "gm_ok m \<Longrightarrow> gm_range m ks \<Longrightarrow> distinct ks"
  by (metis gm_ok_def gm_range_def mset_eq_imp_distinct_iff)

lemma gm_range_self [simp]: "gm_range m (map fst m)"
  by (simp add: gm_range_def)

lemma gm_nonempty: "m \<noteq> [] \<longleftrightarrow> (\<exists>k. gm_get m k \<noteq> None)"
  by (cases m) (auto simp: gm_get_def)

lemma gm_length_card: "gm_ok m \<Longrightarrow> length m = card {k. gm_get m k \<noteq> None}"
proof -
  assume ok: "gm_ok m"
  have "{k. gm_get m k \<noteq> None} = set (map fst m)"
    by (auto simp: gm_get_eq_None)
  then show "length m = card {k. gm_get m k \<noteq> None}"
    using ok by (metis distinct_card gm_ok_def length_map)
qed

section \<open>64-bit signed integers\<close>

text \<open>
  Go's \<open>int\<close>, \<open>int64\<close> and \<open>time.Duration\<close>: 64 bits in two's complement. Addition and
  subtraction wrap around; comparison is signed. The type carries its own order and
  group structure so that the library's sorting and sums apply to it.
\<close>

datatype int64 = I64 (bits64: "64 word")

definition val64 :: "int64 \<Rightarrow> int" where
  "val64 a = sint (bits64 a)"

definition of_int64 :: "int \<Rightarrow> int64" where
  "of_int64 n = I64 (word_of_int n)"

lemma of_int64_val64 [simp]: "of_int64 (val64 a) = a"
  by (simp add: val64_def of_int64_def)

lemma val64_inject [simp]: "val64 a = val64 b \<longleftrightarrow> a = b"
  by (metis of_int64_val64)

instantiation int64 :: linorder
begin

definition less_eq_int64 :: "int64 \<Rightarrow> int64 \<Rightarrow> bool" where
  "a \<le> b \<longleftrightarrow> val64 a \<le> val64 b"

definition less_int64 :: "int64 \<Rightarrow> int64 \<Rightarrow> bool" where
  "a < b \<longleftrightarrow> val64 a < val64 b"

instance
  by standard
    (auto simp: less_eq_int64_def less_int64_def)

end

instantiation int64 :: ab_group_add
begin

definition zero_int64 :: int64 where
  "0 = I64 0"

definition plus_int64 :: "int64 \<Rightarrow> int64 \<Rightarrow> int64" where
  "a + b = I64 (bits64 a + bits64 b)"

definition minus_int64 :: "int64 \<Rightarrow> int64 \<Rightarrow> int64" where
  "a - b = I64 (bits64 a - bits64 b)"

definition uminus_int64 :: "int64 \<Rightarrow> int64" where
  "- a = I64 (- bits64 a)"

instance
  by standard
    (auto simp: zero_int64_def plus_int64_def minus_int64_def uminus_int64_def
      intro: int64.expand)

end

definition fits64 :: "int \<Rightarrow> bool" where
  "fits64 n \<longleftrightarrow> - (2 ^ 63) \<le> n \<and> n < 2 ^ 63"

lemma val64_of_int64 [int64_conv]: "fits64 n \<Longrightarrow> val64 (of_int64 n) = n"
  by (auto simp: fits64_def val64_def of_int64_def signed_of_int
      intro: signed_take_bit_int_eq_self)

lemma fits64_val64 [simp]: "fits64 (val64 a)"
  using sint_ge [of "bits64 a"] sint_lt [of "bits64 a"]
  by (simp add: fits64_def val64_def)

lemma plus64_of_int [int64_conv]: "a + b = of_int64 (val64 a + val64 b)"
  by (simp add: plus_int64_def of_int64_def val64_def)

lemma minus64_of_int [int64_conv]: "a - b = of_int64 (val64 a - val64 b)"
  by (simp add: minus_int64_def of_int64_def val64_def)

lemma val64_plus: "fits64 (val64 a + val64 b) \<Longrightarrow> val64 (a + b) = val64 a + val64 b"
  by (simp add: plus64_of_int val64_of_int64)

lemma val64_minus: "fits64 (val64 a - val64 b) \<Longrightarrow> val64 (a - b) = val64 a - val64 b"
  by (simp add: minus64_of_int val64_of_int64)

lemma val64_zero [simp]: "val64 0 = 0"
  by (simp add: zero_int64_def val64_def)

lemma of_int64_plus [simp]: "of_int64 a + of_int64 b = of_int64 (a + b)"
  by (simp add: of_int64_def plus_int64_def)

lemma of_int64_minus [simp]: "of_int64 a - of_int64 b = of_int64 (a - b)"
  by (simp add: of_int64_def minus_int64_def)

lemma of_int64_less: "fits64 a \<Longrightarrow> fits64 b \<Longrightarrow> of_int64 a < of_int64 b \<longleftrightarrow> a < b"
  by (simp add: less_int64_def val64_of_int64)

lemma of_int64_le: "fits64 a \<Longrightarrow> fits64 b \<Longrightarrow> of_int64 a \<le> of_int64 b \<longleftrightarrow> a \<le> b"
  by (simp add: less_eq_int64_def val64_of_int64)

lemma of_int64_0 [simp]: "of_int64 0 = 0"
  by (simp add: of_int64_def zero_int64_def)

lemmas of_int64_compare = of_int64_less of_int64_le fits64_def

section \<open>Runs of a labelled step relation\<close>

text \<open>
  A component whose goroutines interleave is a step relation labelled with what happens
  at its interface; \<open>run step s es t\<close> says that the events \<open>es\<close>, in this order, lead from
  \<open>s\<close> to \<open>t\<close>. An invariant may speak of the events so far.
\<close>

inductive run :: "('s \<Rightarrow> 'e \<Rightarrow> 's \<Rightarrow> bool) \<Rightarrow> 's \<Rightarrow> 'e list \<Rightarrow> 's \<Rightarrow> bool"
  for step :: "'s \<Rightarrow> 'e \<Rightarrow> 's \<Rightarrow> bool" where
  run_Nil: "run step s [] s"
| run_snoc: "run step s es t \<Longrightarrow> step t e u \<Longrightarrow> run step s (es @ [e]) u"

lemma run_single: "step s e t \<Longrightarrow> run step s [e] t"
  using run_snoc [OF run_Nil] by fastforce

lemma run_append: "run step t fs u \<Longrightarrow> run step s es t \<Longrightarrow> run step s (es @ fs) u"
  by (induction rule: run.induct) (auto simp flip: append_assoc intro: run_snoc)

lemma run_Cons: "step s e t \<Longrightarrow> run step t es u \<Longrightarrow> run step s (e # es) u"
  using run_append [of step t es u s "[e]"] run_single [of step s e t] by simp

lemma run_Nil_iff [simp]: "run step s [] t \<longleftrightarrow> t = s"
  by (auto intro: run_Nil elim: run.cases)

lemma run_snoc_iff: "run step s (es @ [e]) u \<longleftrightarrow> (\<exists>t. run step s es t \<and> step t e u)"
  by (auto intro: run_snoc elim: run.cases)

lemma run_append_iff: "run step s (es @ fs) u \<longleftrightarrow> (\<exists>t. run step s es t \<and> run step t fs u)"
proof (induction fs arbitrary: u rule: rev_induct)
  case Nil
  then show ?case by simp
next
  case (snoc f fs)
  then show ?case
    by (auto simp: run_snoc_iff simp flip: append_assoc)
qed

lemma run_Cons_iff: "run step s (e # es) u \<longleftrightarrow> (\<exists>t. step s e t \<and> run step t es u)"
  using run_append_iff [of step s "[e]" es u] run_snoc_iff [of step s "[]" e]
  by auto

locale history_invariant =
  fixes step :: "'s \<Rightarrow> 'e \<Rightarrow> 's \<Rightarrow> bool"
    and inv :: "'e list \<Rightarrow> 's \<Rightarrow> bool"
  assumes history_step: "inv es s \<Longrightarrow> step s e t \<Longrightarrow> inv (es @ [e]) t"
begin

lemma history_run:
  assumes "run step s fs t" and "inv es s"
  shows "inv (es @ fs) t"
  using assms by (induction rule: run.induct) (auto simp flip: append_assoc intro: history_step)

lemma history_from_start: "run step s es t \<Longrightarrow> inv [] s \<Longrightarrow> inv es t"
  using history_run [of s es t "[]"] by simp

end

locale state_invariant =
  fixes step :: "'s \<Rightarrow> 'e \<Rightarrow> 's \<Rightarrow> bool"
    and good :: "'s \<Rightarrow> bool"
  assumes good_step: "good s \<Longrightarrow> step s e t \<Longrightarrow> good t"

sublocale state_invariant \<subseteq> hist: history_invariant step "\<lambda>_. good"
  by unfold_locales (rule good_step)

context state_invariant
begin

lemma good_run: "run step s es t \<Longrightarrow> good s \<Longrightarrow> good t"
  by (rule hist.history_from_start)

end

section \<open>The map interface\<close>

text \<open>
  What a client of a map relies on: a lookup after a write or a removal, and that the
  operations keep the representation well-formed. \<open>sweep_each\<close> is about a client that
  sweeps over a list of keys and rewrites some of the values.
\<close>

locale key_store =
  fixes get :: "'m \<Rightarrow> 'k \<Rightarrow> 'v option"
    and put :: "'k \<Rightarrow> 'v \<Rightarrow> 'm \<Rightarrow> 'm"
    and remove :: "'k \<Rightarrow> 'm \<Rightarrow> 'm"
    and wf :: "'m \<Rightarrow> bool"
  assumes get_put: "get (put k v m) k' = (if k' = k then Some v else get m k')"
    and get_remove: "get (remove k m) k' = (if k' = k then None else get m k')"
    and wf_put: "wf m \<Longrightarrow> wf (put k v m)"
    and wf_remove: "wf m \<Longrightarrow> wf (remove k m)"
begin

lemma get_put_same: "get (put k v m) k = Some v"
  by (simp add: get_put)

lemma get_put_other: "k' \<noteq> k \<Longrightarrow> get (put k v m) k' = get m k'"
  by (simp add: get_put)

lemma get_remove_same: "get (remove k m) k = None"
  by (simp add: get_remove)

lemma remove_put: "get (remove k (put k v m)) = get (remove k m)"
  by (auto simp: get_put get_remove)

lemma put_overwrites: "get (put k v (put k w m)) = get (put k v m)"
  by (auto simp: get_put)

lemma sweep_each:
  assumes other: "\<And>k m w k'. k' \<noteq> k \<Longrightarrow> get (fst (f k (m, w))) k' = get m k'"
    and own: "\<And>k m w. get (fst (f k (m, w))) k = g (get m k) w"
    and later: "\<And>k m w. ok m \<Longrightarrow> ok (fst (f k (m, w))) \<and> (time w :: 't :: order) \<le> time (snd (f k (m, w)))"
    and "distinct ks" and "ok m"
  shows "(k \<notin> set ks \<longrightarrow> get (fst (fold f ks (m, w))) k = get m k) \<and>
    (k \<in> set ks \<longrightarrow>
      (\<exists>w'. time w \<le> time w' \<and> get (fst (fold f ks (m, w))) k = g (get m k) w'))"
  using assms(4,5)
proof (induction ks arbitrary: m w)
  case Nil
  show ?case by simp
next
  case (Cons k' ks)
  obtain m' w' where f: "f k' (m, w) = (m', w')" by fastforce
  have ok': "ok m'" and time': "time w \<le> time w'"
    using later [OF Cons.prems(2), of k' w] by (simp_all add: f)
  have other': "get m' k = get m k" if "k \<noteq> k'"
    using other [of k k' m w] that by (simp add: f)
  have IH: "(k \<notin> set ks \<longrightarrow> get (fst (fold f ks (m', w'))) k = get m' k) \<and>
    (k \<in> set ks \<longrightarrow>
      (\<exists>u. time w' \<le> time u \<and> get (fst (fold f ks (m', w'))) k = g (get m' k) u))"
    using Cons.IH [OF _ ok'] Cons.prems(1) by simp
  show ?case
  proof (cases "k = k'")
    case True
    then have "get (fst (fold f ks (m', w'))) k = g (get m k) w"
      using IH Cons.prems(1) own [of k' m w] by (simp add: f)
    then show ?thesis using True by (auto simp: f)
  next
    case False
    then show ?thesis using IH other' time' by (auto simp: f intro: order_trans)
  qed
qed

lemma put_commutes: "k \<noteq> k' \<Longrightarrow> get (put k v (put k' w m)) = get (put k' w (put k v m))"
  by (auto simp: get_put)

end

interpretation gm: key_store gm_get gm_set gm_delete gm_ok
  by unfold_locales simp_all

end
