(* ===== verification/Raw_Value.thy ===== *)
theory Raw_Value
  imports Quiver_Prelude
begin

text \<open>
  The dynamic values of \<open>raw/raw.go\<close> and \<open>raw/diff.go\<close>: what an \<open>any\<close> holds, its dynamic
  type and kind, the type assertions the package makes and \<open>reflect.DeepEqual\<close>. The last
  section gives values a meaning in which a map is a function from keys, and shows that
  \<open>DeepEqual\<close> is equality of meanings; every statement that a result does not depend on the
  iteration order of a map is stated with it.
\<close>

named_theorems raw_types \<open>dynamic types and type assertions\<close>

section \<open>Values, types and kinds\<close>

datatype kind = KindBool | KindInt | KindString | KindSlice | KindMap | KindOther

text \<open>
  The dynamic types: those the package names, and any other type with its \<open>reflect\<close> kind
  (\<open>map[string]int\<close> is \<open>TOther\<close> with \<open>KindMap\<close>: of kind map, yet not a \<open>Map\<close>).
\<close>

datatype gotype = TBool | TInt | TString | TSlice | TMap | TOther string kind

text \<open>
  \<open>VNil\<close> is the nil interface. A nil slice and a nil map are values of type \<open>[]any\<close> and
  \<open>map[string]any\<close> that differ from the empty ones. \<open>VOther\<close> is a value of another type,
  its content abstracted to a number such that \<open>==\<close> of the contents is equality of the
  numbers (so NaN, functions and pointers compared by what they point at are left out).
\<close>

datatype goval =
    VNil
  | VBool bool
  | VInt int64
  | VString string
  | VSlice "goval list"
  | VNilSlice
  | VMap "(string \<times> goval) list"
  | VNilMap
  | VOther string kind nat

type_synonym gmap = "(string, goval) gomap"

fun type_of :: "goval \<Rightarrow> gotype option" where
  "type_of VNil = None"
| "type_of (VBool b) = Some TBool"
| "type_of (VInt n) = Some TInt"
| "type_of (VString s) = Some TString"
| "type_of (VSlice xs) = Some TSlice"
| "type_of VNilSlice = Some TSlice"
| "type_of (VMap m) = Some TMap"
| "type_of VNilMap = Some TMap"
| "type_of (VOther t k n) = Some (TOther t k)"

fun kind_of :: "gotype \<Rightarrow> kind" where
  "kind_of TBool = KindBool"
| "kind_of TInt = KindInt"
| "kind_of TString = KindString"
| "kind_of TSlice = KindSlice"
| "kind_of TMap = KindMap"
| "kind_of (TOther t k) = k"

text \<open>The type assertions \<open>v.(Map)\<close> and \<open>v.([]any)\<close>; reading a nil map or slice finds nothing.\<close>

fun as_map :: "goval \<Rightarrow> gmap option" where
  "as_map (VMap m) = Some m"
| "as_map VNilMap = Some []"
| "as_map v = None"

fun as_slice :: "goval \<Rightarrow> goval list option" where
  "as_slice (VSlice xs) = Some xs"
| "as_slice VNilSlice = Some []"
| "as_slice v = None"

lemma as_map_type [raw_types]: "as_map v \<noteq> None \<longleftrightarrow> type_of v = Some TMap"
  by (cases v) auto

lemma as_slice_type [raw_types]: "as_slice v \<noteq> None \<longleftrightarrow> type_of v = Some TSlice"
  by (cases v) auto

lemma as_map_SomeE:
  assumes "as_map v = Some m"
  obtains "v = VMap m" | "v = VNilMap" "m = []"
  using assms by (cases v) auto

lemma as_slice_SomeE:
  assumes "as_slice v = Some xs"
  obtains "v = VSlice xs" | "v = VNilSlice" "xs = []"
  using assms by (cases v) auto

lemma size_as_map: "as_map v = Some m \<Longrightarrow> size_list (size_prod (\<lambda>_. 0) size) m < Suc (size v)"
  by (cases v) auto

section \<open>DeepEqual\<close>

lemma size_map_entry: "(k, v) \<in> set m \<Longrightarrow> size v < size (VMap m)"
  by (induction m) auto

lemma size_slice_elem: "v \<in> set xs \<Longrightarrow> size v < size (VSlice xs)"
  by (induction xs) auto

function (sequential) deep_equal :: "goval \<Rightarrow> goval \<Rightarrow> bool" where
  "deep_equal (VSlice xs) (VSlice ys) \<longleftrightarrow>
     length xs = length ys \<and> (\<forall>(x, y) \<in> set (zip xs ys). deep_equal x y)"
| "deep_equal (VMap m) (VMap n) \<longleftrightarrow>
     length m = length n \<and>
     (\<forall>(k, v) \<in> set m. case gm_get n k of None \<Rightarrow> False | Some w \<Rightarrow> deep_equal v w)"
| "deep_equal a b \<longleftrightarrow> a = b"
  by pat_completeness auto
termination
  by (relation "measure (\<lambda>(a, b). size a)")
    (auto dest!: set_zip_leftD intro: size_slice_elem size_map_entry simp del: goval.size)

section \<open>Meaning\<close>

datatype aval =
    ANil
  | ABool bool
  | AInt int64
  | AString string
  | ASlice "aval list"
  | ANilSlice
  | AMap "string \<Rightarrow> aval option"
  | ANilMap
  | AOther string kind nat

fun absv :: "goval \<Rightarrow> aval" where
  "absv VNil = ANil"
| "absv (VBool b) = ABool b"
| "absv (VInt n) = AInt n"
| "absv (VString s) = AString s"
| "absv (VSlice xs) = ASlice (map absv xs)"
| "absv VNilSlice = ANilSlice"
| "absv (VMap m) = AMap (gm_get (map (\<lambda>(k, v). (k, absv v)) m))"
| "absv VNilMap = ANilMap"
| "absv (VOther t k n) = AOther t k n"

definition absm :: "gmap \<Rightarrow> string \<Rightarrow> aval option" where
  "absm m k = map_option absv (gm_get m k)"

lemma gm_get_map_values:
  "gm_get (map (\<lambda>(k, v). (k, f v)) m) k = map_option f (gm_get m k)"
  by (induction m) auto

lemma absv_VMap [simp]: "absv (VMap m) = AMap (absm m)"
  by (rule trans [OF absv.simps(7)]) (simp add: fun_eq_iff absm_def gm_get_map_values)

declare absv.simps(7) [simp del]

lemma absv_inverse [simp]:
  "absv a = ANil \<longleftrightarrow> a = VNil"
  "absv a = ABool x \<longleftrightarrow> a = VBool x"
  "absv a = AInt n \<longleftrightarrow> a = VInt n"
  "absv a = AString s \<longleftrightarrow> a = VString s"
  "absv a = ANilSlice \<longleftrightarrow> a = VNilSlice"
  "absv a = ANilMap \<longleftrightarrow> a = VNilMap"
  "absv a = AOther t k c \<longleftrightarrow> a = VOther t k c"
  by (cases a; auto)+

lemma absv_inverse_flipped [simp]:
  "ANil = absv a \<longleftrightarrow> a = VNil"
  "ABool x = absv a \<longleftrightarrow> a = VBool x"
  "AInt n = absv a \<longleftrightarrow> a = VInt n"
  "AString s = absv a \<longleftrightarrow> a = VString s"
  "ANilSlice = absv a \<longleftrightarrow> a = VNilSlice"
  "ANilMap = absv a \<longleftrightarrow> a = VNilMap"
  "AOther t k c = absv a \<longleftrightarrow> a = VOther t k c"
  by (cases a; auto)+

text \<open>Well-formed values: every map in them has distinct keys.\<close>

fun wfv :: "goval \<Rightarrow> bool" where
  "wfv (VSlice xs) \<longleftrightarrow> (\<forall>x \<in> set xs. wfv x)"
| "wfv (VMap m) \<longleftrightarrow> gm_ok m \<and> (\<forall>(k, v) \<in> set m. wfv v)"
| "wfv v \<longleftrightarrow> True"

definition wfm :: "gmap \<Rightarrow> bool" where
  "wfm m \<longleftrightarrow> wfv (VMap m)"

lemma wfm_ok: "wfm m \<Longrightarrow> gm_ok m"
  by (simp add: wfm_def)

lemma wfm_get: "wfm m \<Longrightarrow> gm_get m k = Some v \<Longrightarrow> wfv v"
  by (auto simp: wfm_def dest: gm_get_mem)

lemma wfm_iff: "wfm m \<longleftrightarrow> gm_ok m \<and> (\<forall>k v. gm_get m k = Some v \<longrightarrow> wfv v)"
  by (auto simp: wfm_def gm_get_iff)

lemma wfm_Nil [simp]: "wfm []"
  by (simp add: wfm_iff)

lemma wfm_set [simp]: "wfm m \<Longrightarrow> wfv v \<Longrightarrow> wfm (gm_set k v m)"
  by (auto simp: wfm_iff)

lemma wfm_Cons: "wfm ((k, v) # m) \<longleftrightarrow> gm_get m k = None \<and> wfv v \<and> wfm m"
  by (auto simp: wfm_def gm_ok_Cons)

lemma wfv_as_map: "wfv v \<Longrightarrow> as_map v = Some m \<Longrightarrow> wfm m"
  by (cases v) (auto simp: wfm_def)

lemma wfv_as_slice: "wfv v \<Longrightarrow> as_slice v = Some xs \<Longrightarrow> x \<in> set xs \<Longrightarrow> wfv x"
  by (cases v) auto

lemma absm_set [simp]: "absm (gm_set k v m) = (absm m)(k \<mapsto> absv v)"
  by (auto simp: absm_def fun_eq_iff)

lemma absm_Nil [simp]: "absm [] = Map.empty"
  by (simp add: absm_def fun_eq_iff)

lemma absm_eq_None [simp]: "absm m k = None \<longleftrightarrow> gm_get m k = None"
  by (simp add: absm_def)

text \<open>\<open>DeepEqual\<close> compares lengths before entries; on distinct keys that is equality as maps.\<close>

lemma maps_agree:
  assumes ok: "gm_ok m" "gm_ok n" and len: "length m = length n"
    and sub: "\<And>k. gm_get m k \<noteq> None \<Longrightarrow> gm_get n k \<noteq> None"
  shows "gm_get n k \<noteq> None \<Longrightarrow> gm_get m k \<noteq> None"
proof -
  let ?K = "\<lambda>x. {k. gm_get x k \<noteq> None}"
  have "?K n = fst ` set n"
    by (auto simp: gm_get_eq_None)
  then have "finite (?K n)"
    by (metis List.finite_set finite_imageI)
  moreover have "?K m \<subseteq> ?K n"
    using sub by blast
  moreover have "card (?K m) = card (?K n)"
    using len gm_length_card [OF ok(1)] gm_length_card [OF ok(2)] by simp
  ultimately have "?K m = ?K n"
    by (rule card_subset_eq)
  then show "gm_get n k \<noteq> None \<Longrightarrow> gm_get m k \<noteq> None" by blast
qed

lemma deep_equal_absv:
  "wfv a \<Longrightarrow> wfv b \<Longrightarrow> deep_equal a b \<longleftrightarrow> absv a = absv b"
proof (induction a b rule: deep_equal.induct)
  case (1 xs ys)
  have "(\<forall>(x, y) \<in> set (zip xs ys). deep_equal x y) \<longleftrightarrow>
      (\<forall>(x, y) \<in> set (zip xs ys). absv x = absv y)"
    using 1 by (fastforce dest: set_zip_leftD set_zip_rightD)
  moreover have "map absv xs = map absv ys \<longleftrightarrow> list_all2 (\<lambda>x y. absv x = absv y) xs ys"
    by (simp add: list.rel_map flip: list.rel_eq)
  ultimately show ?case
    by (simp add: list_all2_iff)
next
  case (2 m n)
  let ?sub = "\<forall>(k, v) \<in> set m. case gm_get n k of None \<Rightarrow> False | Some w \<Rightarrow> deep_equal v w"
  have ok: "gm_ok m" "gm_ok n"
    using 2 by auto
  have entry: "deep_equal v w \<longleftrightarrow> absv v = absv w"
    if "gm_get m k = Some v" "gm_get n k = Some w" for k v w
    using 2 that by (fastforce dest: gm_get_mem)
  have entry': "(case gm_get n k of None \<Rightarrow> False | Some w \<Rightarrow> deep_equal v w) \<longleftrightarrow>
      absm n k = Some (absv v)" if "gm_get m k = Some v" for k v
    using entry [OF that] by (cases "gm_get n k") (auto simp: absm_def)
  have sub_iff: "?sub \<longleftrightarrow> (\<forall>k v. gm_get m k = Some v \<longrightarrow> absm n k = Some (absv v))"
    unfolding gm_ball [OF ok(1)]
    using entry' by auto
  show ?case
  proof
    assume eq: "deep_equal (VMap m) (VMap n)"
    then have sub: "absm n k = Some (absv v)" if "gm_get m k = Some v" for k v
      using that sub_iff by simp
    from eq have len: "length m = length n" by simp
    have "absm m k = absm n k" for k
    proof (cases "gm_get m k")
      case None
      have "gm_get n k = None"
        using maps_agree [OF ok len, of k] sub None
        by (metis absm_eq_None option.discI option.exhaust)
      with None show ?thesis by (simp add: absm_def)
    next
      case (Some v)
      then show ?thesis using sub [OF Some] by (simp add: absm_def [of m])
    qed
    then show "absv (VMap m) = absv (VMap n)" by (simp add: fun_eq_iff)
  next
    assume "absv (VMap m) = absv (VMap n)"
    then have eq: "absm m k = absm n k" for k by simp
    then have "gm_get m k \<noteq> None \<longleftrightarrow> gm_get n k \<noteq> None" for k
      by (metis absm_eq_None)
    then have "length m = length n"
      using ok by (simp add: gm_length_card)
    moreover have ?sub
      unfolding sub_iff by (metis absm_def eq option.simps(9))
    ultimately show "deep_equal (VMap m) (VMap n)" by simp
  qed
qed auto

lemma deep_equal_refl: "wfv a \<Longrightarrow> deep_equal a a"
  by (simp add: deep_equal_absv)

lemma deep_equal_sym: "wfv a \<Longrightarrow> wfv b \<Longrightarrow> deep_equal a b \<Longrightarrow> deep_equal b a"
  by (simp add: deep_equal_absv)

lemma deep_equal_trans:
  "wfv a \<Longrightarrow> wfv b \<Longrightarrow> wfv c \<Longrightarrow> deep_equal a b \<Longrightarrow> deep_equal b c \<Longrightarrow> deep_equal a c"
  by (simp add: deep_equal_absv)

lemma absv_type: "absv a = absv b \<Longrightarrow> type_of a = type_of b"
  by (cases a; cases b) auto

lemma absm_Cons: "absm ((k, v) # m) = (absm m)(k \<mapsto> absv v)"
  by (auto simp: absm_def fun_eq_iff)

text \<open>The type assertions on meanings.\<close>

fun as_amap :: "aval \<Rightarrow> (string \<Rightarrow> aval option) option" where
  "as_amap (AMap f) = Some f"
| "as_amap ANilMap = Some Map.empty"
| "as_amap v = None"

fun as_aslice :: "aval \<Rightarrow> aval list option" where
  "as_aslice (ASlice xs) = Some xs"
| "as_aslice ANilSlice = Some []"
| "as_aslice v = None"

lemma as_amap_absv: "as_amap (absv v) = map_option absm (as_map v)"
  by (cases v) auto

lemma as_aslice_absv: "as_aslice (absv v) = map_option (map absv) (as_slice v)"
  by (cases v) auto

end
