(* ===== verification/Raw_Access.thy ===== *)
theory Raw_Access
  imports Raw_Value
begin

text \<open>
  The lookups of \<open>raw/raw.go\<close>: \<open>Get\<close>, \<open>getObjectKey\<close> and \<open>ChainGet\<close>. Where a Go function
  returns an error beside the zero value of its result type, the model keeps the error
  only. \<open>value_at\<close> is the specification: the value at the end of a path of keys.
\<close>

section \<open>Errors and type parameters\<close>

datatype raw_error =
    EmptyKeys
  | InvalidKeys
  | WrongKeyType
  | NotFound
  | WrongValueType
  | ArrayIndexOutOfBounds

text \<open>
  The type parameter \<open>V\<close> of \<open>Get[V]\<close>: a concrete type, or an interface, which is the set of
  the types that implement it. An assertion to either fails on the nil interface.
\<close>

datatype target = Concrete gotype | Interface "gotype \<Rightarrow> bool"

fun has_type :: "target \<Rightarrow> goval \<Rightarrow> bool" where
  "has_type (Concrete t) v \<longleftrightarrow> type_of v = Some t"
| "has_type (Interface I) v \<longleftrightarrow> (case type_of v of None \<Rightarrow> False | Some t \<Rightarrow> I t)"

section \<open>The functions\<close>

definition Get :: "target \<Rightarrow> gmap \<Rightarrow> string \<Rightarrow> (raw_error, goval) outcome" where
  "Get V m key =
     (case gm_get m key of
        None \<Rightarrow> Err NotFound
      | Some value \<Rightarrow> if has_type V value then Ok value else Err WrongValueType)"

text \<open>\<open>slice[k]\<close>: a read outside the slice panics.\<close>

definition slice_index :: "goval list \<Rightarrow> int64 \<Rightarrow> (raw_error, goval) outcome" where
  "slice_index sl k =
     (if 0 \<le> val64 k \<and> val64 k < int (length sl) then Ok (sl ! nat (val64 k))
      else Panic IndexOutOfRange)"

fun getObjectKey :: "goval \<Rightarrow> goval \<Rightarrow> (raw_error, goval) outcome" where
  "getObjectKey object (VInt k) =
     (case as_slice object of
        None \<Rightarrow> Err WrongKeyType
      | Some sl \<Rightarrow>
          if int (length sl) < val64 k then Err NotFound else slice_index sl k)"
| "getObjectKey object (VString k) =
     (case as_map object of
        None \<Rightarrow> Err WrongKeyType
      | Some mp \<Rightarrow> (case gm_get mp k of None \<Rightarrow> Err NotFound | Some thing \<Rightarrow> Ok thing))"
| "getObjectKey object key = Err InvalidKeys"

text \<open>The loop over \<open>keys[:len(keys)-1]\<close>; the slice expression itself panics without keys.\<close>

fun chain_walk :: "goval \<Rightarrow> goval list \<Rightarrow> (raw_error, goval) outcome" where
  "chain_walk running [] = Ok running"
| "chain_walk running (key # keys) =
     (if running = VNil then Err NotFound
      else obind (getObjectKey running key) (\<lambda>running. chain_walk running keys))"

definition ChainGet :: "target \<Rightarrow> gmap \<Rightarrow> goval list \<Rightarrow> (raw_error, goval) outcome" where
  "ChainGet V m keys =
     (if keys = [] then Panic SliceBoundsOutOfRange
      else obind (chain_walk (VMap m) (butlast keys)) (\<lambda>running.
        if running = VNil then Err NotFound
        else obind (getObjectKey running (last keys)) (\<lambda>o'.
          if has_type V o' then Ok o' else Err WrongValueType)))"

section \<open>Specification: the value at a path\<close>

fun child :: "goval \<Rightarrow> goval \<Rightarrow> goval option" where
  "child v (VInt k) =
     (case as_slice v of
        None \<Rightarrow> None
      | Some xs \<Rightarrow>
          if 0 \<le> val64 k \<and> val64 k < int (length xs) then Some (xs ! nat (val64 k)) else None)"
| "child v (VString k) = Option.bind (as_map v) (\<lambda>m. gm_get m k)"
| "child v key = None"

fun value_at :: "goval \<Rightarrow> goval list \<Rightarrow> goval option" where
  "value_at v [] = Some v"
| "value_at v (key # keys) = Option.bind (child v key) (\<lambda>w. value_at w keys)"

lemma value_at_append: "value_at v (ks @ ls) = Option.bind (value_at v ks) (\<lambda>w. value_at w ls)"
  by (induction ks arbitrary: v) (auto split: Option.bind_splits)

text \<open>The reads that panic: an index below zero, or one equal to the length.\<close>

definition bad_index :: "goval \<Rightarrow> goval \<Rightarrow> bool" where
  "bad_index v key \<longleftrightarrow>
     (case (as_slice v, key) of
        (Some xs, VInt k) \<Rightarrow> val64 k < 0 \<or> val64 k = int (length xs)
      | _ \<Rightarrow> False)"

lemma getObjectKey_Ok: "getObjectKey v key = Ok w \<longleftrightarrow> child v key = Some w"
  by (cases key) (auto simp: slice_index_def split: option.splits)

lemma getObjectKey_Panic:
  "getObjectKey v key = Panic p \<longleftrightarrow> bad_index v key \<and> p = IndexOutOfRange"
  by (cases key) (auto simp: slice_index_def bad_index_def split: option.splits)

lemma child_VNil [simp]: "child VNil key = None"
  by (cases key) auto

lemma bad_index_VNil [simp]: "\<not> bad_index VNil key"
  by (simp add: bad_index_def)

lemma chain_walk_Ok: "chain_walk v ks = Ok w \<longleftrightarrow> value_at v ks = Some w"
  by (induction ks arbitrary: v)
    (auto simp: obind_eq_Ok getObjectKey_Ok bind_eq_Some_conv)

lemma chain_walk_Panic:
  "chain_walk v ks = Panic p \<longleftrightarrow>
     p = IndexOutOfRange \<and>
     (\<exists>ls key ms w. ks = ls @ key # ms \<and> value_at v ls = Some w \<and> bad_index w key)"
proof (induction ks arbitrary: v)
  case Nil
  then show ?case by simp
next
  case (Cons k ks)
  have split: "(\<exists>ls key ms w. k # ks = ls @ key # ms \<and> value_at v ls = Some w \<and> bad_index w key) \<longleftrightarrow>
      bad_index v k \<or>
      (\<exists>x. child v k = Some x \<and>
        (\<exists>ls key ms w. ks = ls @ key # ms \<and> value_at x ls = Some w \<and> bad_index w key))"
    (is "?l \<longleftrightarrow> ?r")
  proof
    assume ?l
    then obtain ls key ms w
      where "k # ks = ls @ key # ms" "value_at v ls = Some w" "bad_index w key" by blast
    then show ?r by (cases ls) (auto simp: bind_eq_Some_conv)
  next
    assume ?r
    then show ?l
    proof
      assume "bad_index v k"
      then show ?l by (intro exI [of _ "[]"]) auto
    next
      assume "\<exists>x. child v k = Some x \<and>
        (\<exists>ls key ms w. ks = ls @ key # ms \<and> value_at x ls = Some w \<and> bad_index w key)"
      then obtain x ls key ms w where "child v k = Some x" "ks = ls @ key # ms"
        "value_at x ls = Some w" "bad_index w key" by blast
      then show ?l by (intro exI [of _ "k # ls"]) auto
    qed
  qed
  show ?case
    unfolding split by (auto simp: obind_eq_Panic getObjectKey_Panic getObjectKey_Ok Cons.IH)
qed

lemmas chain_walk_results = chain_walk_Ok chain_walk_Panic getObjectKey_Ok getObjectKey_Panic

lemma value_at_snoc:
  "value_at v (ks @ [k]) = Some w \<longleftrightarrow> (\<exists>x. value_at v ks = Some x \<and> child x k = Some w)"
  by (simp add: value_at_append bind_eq_Some_conv)

lemma ChainGet_snoc:
  "ChainGet V m (ks @ [k]) =
     obind (chain_walk (VMap m) ks) (\<lambda>running.
       if running = VNil then Err NotFound
       else obind (getObjectKey running k) (\<lambda>o'.
         if has_type V o' then Ok o' else Err WrongValueType))"
  by (simp add: ChainGet_def cong: if_cong)

lemma snoc_eq_split:
  "ks @ [k] = ls @ x # ms \<longleftrightarrow>
     ls = ks \<and> x = k \<and> ms = [] \<or> (\<exists>ns. ms = ns @ [k] \<and> ks = ls @ x # ns)"
  by (cases ms rule: rev_cases) auto

lemma ChainGet_Ok:
  "ChainGet V m keys = Ok v \<longleftrightarrow>
     keys \<noteq> [] \<and> value_at (VMap m) keys = Some v \<and> has_type V v"
proof (cases keys rule: rev_cases)
  case Nil
  then show ?thesis by (simp add: ChainGet_def)
next
  case (snoc ks k)
  have "ChainGet V m (ks @ [k]) = Ok v \<longleftrightarrow>
      (\<exists>x. value_at (VMap m) ks = Some x \<and> child x k = Some v) \<and> has_type V v"
    unfolding ChainGet_snoc obind_eq_Ok chain_walk_Ok guard_results getObjectKey_Ok
    by auto
  with snoc show ?thesis
    by (simp add: value_at_snoc)
qed

text \<open>
  C37. \<open>ChainGet[V](m, keys...)\<close> returns a value exactly when there is at least one key, the
  path of all the keys leads from \<open>m\<close> to that value, every index on it within its slice,
  and the value has type \<open>V\<close>.
\<close>

theorem ChainGet_returns_value_at_path:
  "ChainGet V m keys = Ok v \<longleftrightarrow>
     keys \<noteq> [] \<and> value_at (VMap m) keys = Some v \<and> has_type V v"
  by (rule ChainGet_Ok)

text \<open>
  C38. \<open>ChainGet\<close> panics exactly when it is called without keys (the slice expression
  \<open>keys[:len(keys)-1]\<close>) or when the path meets a slice with an index that is negative or
  equal to the slice's length, the bound that \<open>len(slice) < k\<close> lets through.
\<close>

theorem ChainGet_panics_iff:
  "ChainGet V m keys = Panic p \<longleftrightarrow>
     keys = [] \<and> p = SliceBoundsOutOfRange \<or>
     p = IndexOutOfRange \<and>
     (\<exists>ls key ms w. keys = ls @ key # ms \<and> value_at (VMap m) ls = Some w \<and> bad_index w key)"
proof (cases keys rule: rev_cases)
  case Nil
  then show ?thesis by (auto simp: ChainGet_def)
next
  case (snoc ks k)
  let ?bad = "\<lambda>ks. \<exists>ls key ms w. ks = ls @ key # ms \<and> value_at (VMap m) ls = Some w \<and> bad_index w key"
  have "?bad (ks @ [k]) \<longleftrightarrow> ?bad ks \<or> (\<exists>w. value_at (VMap m) ks = Some w \<and> bad_index w k)"
    unfolding snoc_eq_split by blast
  moreover have "ChainGet V m (ks @ [k]) = Panic p \<longleftrightarrow>
      p = IndexOutOfRange \<and> (?bad ks \<or> (\<exists>w. value_at (VMap m) ks = Some w \<and> bad_index w k))"
    unfolding ChainGet_snoc obind_eq_Panic guard_results chain_walk_results
    by auto
  ultimately show ?thesis
    unfolding snoc by simp
qed

text \<open>
  With one string key \<open>ChainGet\<close> is \<open>Get\<close>.
\<close>

theorem ChainGet_single_key: "ChainGet V m [VString key] = Get V m key"
  by (auto simp: ChainGet_def Get_def split: option.splits)

end
