(* ===== verification/Raw_Merge.thy ===== *)
theory Raw_Merge
  imports Raw_Access
begin

text \<open>
  \<open>Merge\<close> and \<open>mergeSlice\<close> of \<open>raw/raw.go\<close>, the merge of meanings they implement
  (\<open>amerge\<close>), and the key paths on which \<open>Merge\<close> panics.
\<close>

section \<open>The functions\<close>

text \<open>The inner loop of \<open>mergeSlice\<close>: is some element of \<open>s1\<close> deeply equal to \<open>v2\<close>?\<close>

fun exists_in :: "goval list \<Rightarrow> goval \<Rightarrow> bool" where
  "exists_in [] v2 = False"
| "exists_in (v1 # s1) v2 = (if deep_equal v1 v2 then True else exists_in s1 v2)"

fun mergeSlice_loop :: "goval list \<Rightarrow> goval list \<Rightarrow> goval list \<Rightarrow> goval list" where
  "mergeSlice_loop s1 mergedSlice [] = mergedSlice"
| "mergeSlice_loop s1 mergedSlice (v2 # s2) =
     (if exists_in s1 v2 then mergeSlice_loop s1 mergedSlice s2
      else mergeSlice_loop s1 (mergedSlice @ [v2]) s2)"

text \<open>
  \<open>append\<close> to the nil slice yields a nil slice when there is nothing to append, so two
  empty slices merge to the nil slice.
\<close>

definition mergeSlice :: "goval list \<Rightarrow> goval list \<Rightarrow> goval" where
  "mergeSlice s1 s2 =
     (let mergedSlice = mergeSlice_loop s1 s1 s2
      in if mergedSlice = [] then VNilSlice else VSlice mergedSlice)"

text \<open>The first loop of \<open>Merge\<close> copies the entries of \<open>map1\<close>.\<close>

fun copy_entries :: "gmap \<Rightarrow> gmap \<Rightarrow> gmap" where
  "copy_entries mergedMap [] = mergedMap"
| "copy_entries mergedMap ((key, v) # rest) = copy_entries (gm_set key v mergedMap) rest"

text \<open>
  The second loop, over \<open>map2\<close>. Values of equal dynamic type are merged when both are a
  \<open>Map\<close> or both a \<open>[]any\<close>, and overwritten otherwise. The dynamic type of a nil interface
  is a nil \<open>reflect.Type\<close>: two nil values have equal types, and \<open>tv1.Kind()\<close> panics.
\<close>

function merge_loop :: "gmap \<Rightarrow> gmap \<Rightarrow> (raw_error, gmap) outcome" where
  "merge_loop mergedMap [] = Ok mergedMap"
| "merge_loop mergedMap ((key, v2) # rest) =
     (case gm_get mergedMap key of
        None \<Rightarrow> merge_loop (gm_set key v2 mergedMap) rest
      | Some v1 \<Rightarrow>
          if type_of v1 = type_of v2 then
            (case type_of v1 of
               None \<Rightarrow> Panic NilDereference
             | Some tv1 \<Rightarrow>
                 (case kind_of tv1 of
                    KindMap \<Rightarrow>
                      (case (as_map v1, as_map v2) of
                         (Some m1, Some m2) \<Rightarrow>
                           obind (merge_loop (copy_entries [] m1) m2)
                             (\<lambda>r. merge_loop (gm_set key (VMap r) mergedMap) rest)
                       | _ \<Rightarrow> merge_loop (gm_set key v2 mergedMap) rest)
                  | KindSlice \<Rightarrow>
                      (case (as_slice v1, as_slice v2) of
                         (Some sv1, Some sv2) \<Rightarrow>
                           merge_loop (gm_set key (mergeSlice sv1 sv2) mergedMap) rest
                       | _ \<Rightarrow> merge_loop (gm_set key v2 mergedMap) rest)
                  | _ \<Rightarrow> merge_loop (gm_set key v2 mergedMap) rest))
          else merge_loop (gm_set key v2 mergedMap) rest)"
  by pat_completeness auto
termination
proof (relation "measure (\<lambda>(m, n). size_list (size_prod (\<lambda>_. 0) size) n)")
qed (auto dest: size_as_map [OF sym])

definition Merge :: "gmap \<Rightarrow> gmap \<Rightarrow> (raw_error, gmap) outcome" where
  "Merge m1 m2 = merge_loop (copy_entries [] m1) m2"

lemmas merge_loop_simps [simp] = merge_loop.simps(1)

lemma copy_entries_append: "gm_ok (acc @ m) \<Longrightarrow> copy_entries acc m = acc @ m"
proof (induction m arbitrary: acc)
  case Nil
  then show ?case by simp
next
  case (Cons e m)
  obtain k v where e: "e = (k, v)" by force
  have "gm_get acc k = None"
    using Cons.prems by (auto simp: e gm_ok_def gm_get_eq_None)
  with Cons show ?case by (simp add: e gm_set_eq_append)
qed

lemma copy_entries_id [simp]: "gm_ok m \<Longrightarrow> copy_entries [] m = m"
  using copy_entries_append [of "[]" m] by simp

lemma Merge_eq [simp]: "gm_ok m1 \<Longrightarrow> Merge m1 m2 = merge_loop m1 m2"
  by (simp add: Merge_def)

lemma exists_in_iff: "exists_in s1 v \<longleftrightarrow> (\<exists>x \<in> set s1. deep_equal x v)"
  by (induction s1) auto

lemma mergeSlice_loop_eq:
  "mergeSlice_loop s1 acc s2 = acc @ filter (\<lambda>v. \<not> exists_in s1 v) s2"
  by (induction s2 arbitrary: acc) auto

text \<open>One entry of \<open>map2\<close> whose key is in the merged map already.\<close>

definition merge_value :: "goval \<Rightarrow> goval \<Rightarrow> (raw_error, goval) outcome" where
  "merge_value v1 v2 =
     (case (as_map v1, as_map v2) of
        (Some a, Some b) \<Rightarrow> obind (merge_loop (copy_entries [] a) b) (\<lambda>r. Ok (VMap r))
      | _ \<Rightarrow>
        (case (as_slice v1, as_slice v2) of
           (Some xs, Some ys) \<Rightarrow> Ok (mergeSlice xs ys)
         | _ \<Rightarrow> if v1 = VNil \<and> v2 = VNil then Panic NilDereference else Ok v2))"

lemma obind_assoc [simp]: "obind (obind r f) g = obind r (\<lambda>x. obind (f x) g)"
  by (cases r) auto

lemma merge_loop_Cons:
  "merge_loop m ((k, v2) # rest) =
     (case gm_get m k of
        None \<Rightarrow> merge_loop (gm_set k v2 m) rest
      | Some v1 \<Rightarrow> obind (merge_value v1 v2) (\<lambda>v. merge_loop (gm_set k v m) rest))"
proof (cases "gm_get m k")
  case None
  then show ?thesis by simp
next
  case (Some v1)
  then show ?thesis
    by (cases v1; cases v2; simp add: merge_value_def)
      (auto split: kind.splits)
qed

declare merge_loop.simps(2) [simp del]

lemma merge_induct [case_names Nil Cons]:
  assumes "\<And>m. P m []"
    and "\<And>m k v rest. (\<And>m'. P m' rest) \<Longrightarrow> (\<And>m' n. as_map v = Some n \<Longrightarrow> P m' n) \<Longrightarrow>
      P m ((k, v) # rest)"
  shows "P m (n :: gmap)"
proof (induction n arbitrary: m rule: measure_induct_rule
    [where f = "size_list (size_prod (\<lambda>_. 0) size)"])
  case (less n)
  show ?case
  proof (cases n)
    case Nil
    then show ?thesis using assms(1) by simp
  next
    case (Cons e rest)
    obtain k v where e: "e = (k, v)" by force
    show ?thesis
      unfolding Cons e
    proof (rule assms(2))
      show "P m' rest" for m'
        by (rule less) (simp add: Cons)
      show "P m' b" if "as_map v = Some b" for m' b
        by (rule less) (use size_as_map [OF that] in \<open>simp add: Cons e\<close>)
    qed
  qed
qed

section \<open>The merge of meanings\<close>

definition union_slice :: "aval list \<Rightarrow> aval list \<Rightarrow> aval" where
  "union_slice xs ys =
     (let zs = xs @ filter (\<lambda>y. y \<notin> set xs) ys in if zs = [] then ANilSlice else ASlice zs)"

text \<open>
  Maps merge key by key, slices as ordered unions; anything else is replaced by the
  second value.
\<close>

primrec amergev :: "aval \<Rightarrow> aval \<Rightarrow> aval" where
  "amergev ANil = (\<lambda>w. w)"
| "amergev (ABool b) = (\<lambda>w. w)"
| "amergev (AInt n) = (\<lambda>w. w)"
| "amergev (AString s) = (\<lambda>w. w)"
| "amergev (ASlice xs) = (\<lambda>w. case as_aslice w of None \<Rightarrow> w | Some ys \<Rightarrow> union_slice xs ys)"
| "amergev ANilSlice = (\<lambda>w. case as_aslice w of None \<Rightarrow> w | Some ys \<Rightarrow> union_slice [] ys)"
| "amergev (AMap f) = (\<lambda>w. case as_amap w of None \<Rightarrow> w | Some g \<Rightarrow>
     AMap (\<lambda>k. case (map_option amergev \<circ> f) k of
                 None \<Rightarrow> g k
               | Some h \<Rightarrow> (case g k of None \<Rightarrow> f k | Some w \<Rightarrow> Some (h w))))"
| "amergev ANilMap = (\<lambda>w. case as_amap w of None \<Rightarrow> w | Some g \<Rightarrow> AMap g)"
| "amergev (AOther t k n) = (\<lambda>w. w)"

definition amerge :: "(string \<rightharpoonup> aval) \<Rightarrow> (string \<rightharpoonup> aval) \<Rightarrow> (string \<rightharpoonup> aval)" where
  "amerge f g k =
     (case g k of
        None \<Rightarrow> f k
      | Some w \<Rightarrow> (case f k of None \<Rightarrow> Some w | Some v \<Rightarrow> Some (amergev v w)))"

lemma amergev_AMap:
  "amergev (AMap f) w = (case as_amap w of None \<Rightarrow> w | Some g \<Rightarrow> AMap (amerge f g))"
  by (auto simp: amerge_def fun_eq_iff split: option.splits)

lemma amerge_empty [simp]: "amerge f Map.empty = f" "amerge Map.empty g = g"
  by (auto simp: amerge_def fun_eq_iff split: option.splits)

declare amergev.simps(7) [simp del]

text \<open>\<open>amergev\<close> by what the two values are, the shape of \<open>merge_value\<close>.\<close>

lemma amergev_cases:
  "amergev v w =
     (case (as_amap v, as_amap w) of
        (Some f, Some g) \<Rightarrow> AMap (amerge f g)
      | _ \<Rightarrow>
        (case (as_aslice v, as_aslice w) of
           (Some xs, Some ys) \<Rightarrow> union_slice xs ys
         | _ \<Rightarrow> w))"
  by (cases v; cases w) (auto simp: amergev_AMap)

lemma absv_mergeSlice:
  assumes "\<And>x. x \<in> set xs \<Longrightarrow> wfv x" and "\<And>y. y \<in> set ys \<Longrightarrow> wfv y"
  shows "absv (mergeSlice xs ys) = union_slice (map absv xs) (map absv ys)"
proof -
  have "exists_in xs y \<longleftrightarrow> absv y \<in> absv ` set xs" if "y \<in> set ys" for y
    using that assms by (auto simp: exists_in_iff deep_equal_absv image_iff)
      (metis deep_equal_absv)
  then have "filter (\<lambda>y. \<not> exists_in xs y) ys = filter (\<lambda>y. absv y \<notin> absv ` set xs) ys"
    by (intro filter_cong) auto
  then have e: "map absv (mergeSlice_loop xs xs ys) =
      map absv xs @ filter (\<lambda>y. y \<notin> set (map absv xs)) (map absv ys)"
    by (simp add: mergeSlice_loop_eq filter_map comp_def)
  show ?thesis
    unfolding mergeSlice_def union_slice_def Let_def e [symmetric] by simp
qed

lemma wfv_mergeSlice:
  assumes "\<And>x. x \<in> set xs \<Longrightarrow> wfv x" and "\<And>y. y \<in> set ys \<Longrightarrow> wfv y"
  shows "wfv (mergeSlice xs ys)"
  using assms by (auto simp: mergeSlice_def mergeSlice_loop_eq Let_def)

lemma merge_value_refines:
  assumes wf: "wfv v" "wfv w" and res: "merge_value v w = Ok u"
    and inner: "\<And>a b r. as_map w = Some b \<Longrightarrow> wfm a \<Longrightarrow> wfm b \<Longrightarrow> merge_loop a b = Ok r \<Longrightarrow>
      wfm r \<and> absm r = amerge (absm a) (absm b)"
  shows "wfv u \<and> absv u = amergev (absv v) (absv w)"
proof (cases "as_map v = None \<or> as_map w = None")
  case False
  then obtain a b where ab: "as_map v = Some a" "as_map w = Some b" by auto
  then have wfab: "wfm a" "wfm b" using wf by (auto intro: wfv_as_map)
  then obtain r where r: "merge_loop a b = Ok r" "u = VMap r"
    using res ab by (auto simp: merge_value_def obind_eq_Ok wfm_ok)
  then have "wfm r" "absm r = amerge (absm a) (absm b)"
    using inner [OF ab(2) wfab r(1)] by auto
  then show ?thesis
    using r ab by (simp add: amergev_cases as_amap_absv wfm_def)
next
  case no_maps: True
  show ?thesis
  proof (cases "as_slice v = None \<or> as_slice w = None")
    case False
    then obtain xs ys where xy: "as_slice v = Some xs" "as_slice w = Some ys" by auto
    then have elems: "\<And>x. x \<in> set xs \<Longrightarrow> wfv x" "\<And>y. y \<in> set ys \<Longrightarrow> wfv y"
      using wf by (auto intro: wfv_as_slice)
    have "u = mergeSlice xs ys"
      using res no_maps xy by (auto simp: merge_value_def split: option.splits)
    then show ?thesis
      using no_maps xy absv_mergeSlice [OF elems] wfv_mergeSlice [OF elems]
      by (auto simp: amergev_cases as_amap_absv as_aslice_absv split: option.splits)
  next
    case True
    then have "u = w"
      using res no_maps by (auto simp: merge_value_def split: option.splits if_splits)
    then show ?thesis
      using wf no_maps True
      by (auto simp: amergev_cases as_amap_absv as_aslice_absv split: option.splits)
  qed
qed

lemma amerge_upd:
  "g k = None \<Longrightarrow> amerge (f(k \<mapsto> v)) g = (amerge f g)(k \<mapsto> v)"
  by (auto simp: amerge_def fun_eq_iff split: option.splits)

lemma merge_loop_refines:
  "wfm m \<Longrightarrow> wfm n \<Longrightarrow> merge_loop m n = Ok r \<Longrightarrow>
    wfm r \<and> absm r = amerge (absm m) (absm n)"
proof (induction m n arbitrary: r rule: merge_induct)
  case (Nil m)
  then show ?case by simp
next
  case (Cons m k v2 rest)
  have new: "gm_get rest k = None" and wf: "wfv v2" "wfm rest"
    using Cons.prems(2) by (auto simp: wfm_Cons)
  show ?case
  proof (cases "gm_get m k")
    case None
    then have "merge_loop (gm_set k v2 m) rest = Ok r"
      using Cons.prems(3) by (simp add: merge_loop_Cons)
    then have "wfm r \<and> absm r = amerge (absm (gm_set k v2 m)) (absm rest)"
      using Cons.prems(1) wf by (intro Cons.IH(1)) auto
    then show ?thesis
      using None new
      by (auto simp: amerge_upd absm_Cons) (auto simp: amerge_def absm_def fun_eq_iff)
  next
    case (Some v1)
    then obtain v where v: "merge_value v1 v2 = Ok v" "merge_loop (gm_set k v m) rest = Ok r"
      using Cons.prems(3) by (auto simp: merge_loop_Cons obind_eq_Ok)
    have "wfv v1" using Some Cons.prems(1) by (simp add: wfm_get)
    then have v': "wfv v" "absv v = amergev (absv v1) (absv v2)"
      using merge_value_refines [OF _ wf(1) v(1)] Cons.IH(2) by blast+
    then have "wfm r \<and> absm r = amerge (absm (gm_set k v m)) (absm rest)"
      using Cons.prems(1) wf v(2) by (intro Cons.IH(1)) auto
    then show ?thesis
      using Some new v'(2) by (auto simp: amerge_upd absm_Cons)
        (auto simp: amerge_def absm_def fun_eq_iff)
  qed
qed

section \<open>Panics\<close>

text \<open>A path of string keys at which both values hold nil.\<close>

definition nil_clash :: "goval \<Rightarrow> goval \<Rightarrow> bool" where
  "nil_clash v w \<longleftrightarrow>
     (\<exists>ks. value_at v (map VString ks) = Some VNil \<and> value_at w (map VString ks) = Some VNil)"

lemma nil_clash_unfold:
  "nil_clash v w \<longleftrightarrow>
     v = VNil \<and> w = VNil \<or>
     (\<exists>k x y. child v (VString k) = Some x \<and> child w (VString k) = Some y \<and> nil_clash x y)"
proof -
  have "(\<exists>ks. P ks) \<longleftrightarrow> P [] \<or> (\<exists>k ks. P (k # ks))" for P :: "string list \<Rightarrow> bool"
    by (metis neq_Nil_conv)
  from this [of "\<lambda>ks. value_at v (map VString ks) = Some VNil \<and>
    value_at w (map VString ks) = Some VNil"]
  show ?thesis
    unfolding nil_clash_def by (auto simp: bind_eq_Some_conv simp del: child.simps)
qed

lemma nil_clash_maps:
  assumes "as_map v = Some a" and "as_map w = Some b"
  shows "nil_clash v w \<longleftrightarrow> (\<exists>k x y. gm_get a k = Some x \<and> gm_get b k = Some y \<and> nil_clash x y)"
  using assms by (subst nil_clash_unfold) (auto elim: as_map_SomeE)

lemma nil_clash_not_maps:
  assumes "as_map v = None \<or> as_map w = None"
  shows "nil_clash v w \<longleftrightarrow> v = VNil \<and> w = VNil"
  using assms by (subst nil_clash_unfold) auto

lemma nil_clash_VMap:
  "nil_clash (VMap a) (VMap b) \<longleftrightarrow>
     (\<exists>k x y. gm_get a k = Some x \<and> gm_get b k = Some y \<and> nil_clash x y)"
  by (simp add: nil_clash_maps)

lemma nil_clash_Cons:
  assumes "gm_get rest k = None"
  shows "nil_clash (VMap m) (VMap ((k, v2) # rest)) \<longleftrightarrow>
     (\<exists>v1. gm_get m k = Some v1 \<and> nil_clash v1 v2) \<or>
     nil_clash (VMap (gm_set k v m)) (VMap rest)"
  using assms unfolding nil_clash_VMap by (auto split: if_splits)

lemma merge_value_total:
  assumes wf: "wfv v" "wfv w"
    and inner: "\<And>a b. as_map w = Some b \<Longrightarrow> wfm a \<Longrightarrow> wfm b \<Longrightarrow>
      (\<exists>r. merge_loop a b = Ok r) \<and> \<not> nil_clash (VMap a) (VMap b) \<or>
      merge_loop a b = Panic NilDereference \<and> nil_clash (VMap a) (VMap b)"
  shows "(\<exists>u. merge_value v w = Ok u) \<and> \<not> nil_clash v w \<or>
    merge_value v w = Panic NilDereference \<and> nil_clash v w"
proof (cases "as_map v = None \<or> as_map w = None")
  case True
  then show ?thesis
    by (auto simp: nil_clash_not_maps merge_value_def split: option.splits)
next
  case False
  then obtain a b where ab: "as_map v = Some a" "as_map w = Some b" by auto
  then have wfab: "wfm a" "wfm b" using wf by (auto intro: wfv_as_map)
  then show ?thesis
    using inner [OF ab(2) wfab] ab
    by (auto simp: merge_value_def wfm_ok nil_clash_maps [OF ab] nil_clash_VMap)
qed

lemma merge_loop_total:
  "wfm m \<Longrightarrow> wfm n \<Longrightarrow>
    (\<exists>r. merge_loop m n = Ok r) \<and> \<not> nil_clash (VMap m) (VMap n) \<or>
    merge_loop m n = Panic NilDereference \<and> nil_clash (VMap m) (VMap n)"
proof (induction m n rule: merge_induct)
  case (Nil m)
  then show ?case by (simp add: nil_clash_VMap)
next
  case (Cons m k v2 rest)
  have new: "gm_get rest k = None" and wf: "wfv v2" "wfm rest"
    using Cons.prems(2) by (auto simp: wfm_Cons)
  note rest = Cons.IH(1) [OF wfm_set [OF Cons.prems(1)] wf(2)]
  note split = nil_clash_Cons [OF new, of m v2]
  show ?case
  proof (cases "gm_get m k")
    case None
    then show ?thesis
      using rest [OF wf(1), of k] split [of v2] by (simp add: merge_loop_Cons)
  next
    case (Some v1)
    have v1: "wfv v1" using Some Cons.prems(1) by (simp add: wfm_get)
    have tot: "(\<exists>u. merge_value v1 v2 = Ok u) \<and> \<not> nil_clash v1 v2 \<or>
        merge_value v1 v2 = Panic NilDereference \<and> nil_clash v1 v2"
      using v1 wf(1) Cons.IH(2) by (rule merge_value_total)
    then show ?thesis
    proof
      assume "(\<exists>u. merge_value v1 v2 = Ok u) \<and> \<not> nil_clash v1 v2"
      then obtain u where u: "merge_value v1 v2 = Ok u" "\<not> nil_clash v1 v2" by blast
      then have "wfv u"
        using merge_value_refines [OF v1 wf(1) u(1)] merge_loop_refines by blast
      then show ?thesis
        using rest [of u k] split [of u] Some u by (simp add: merge_loop_Cons)
    next
      assume "merge_value v1 v2 = Panic NilDereference \<and> nil_clash v1 v2"
      then show ?thesis
        using split [of v2] Some by (simp add: merge_loop_Cons)
    qed
  qed
qed

section \<open>Properties\<close>

text \<open>
  C1. \<open>Merge\<close> implements the merge of meanings, whatever order the run time iterates the two
  maps in: the meaning of the result is \<open>amerge\<close> of the meanings (keys of either map; maps
  under a common key merged recursively, slices united in order, anything else overwritten
  by the second map's value), and the result is again a map with distinct keys.
\<close>

theorem Merge_refines_amerge:
  assumes "wfm m1" and "wfm m2" and "Merge m1 m2 = Ok r"
  shows "wfm r \<and> absm r = amerge (absm m1) (absm m2)"
proof (rule merge_loop_refines [OF assms(1,2)])
  show "merge_loop m1 m2 = Ok r"
    using assms(1,3) by (simp add: wfm_ok)
qed

definition conf_base :: gmap where
  "conf_base =
     [(''a'', VMap [(''1'', VInt (of_int64 1)), (''2'', VInt (of_int64 2))]),
      (''l'', VSlice [VInt (of_int64 1), VInt (of_int64 2)])]"

definition conf_over :: gmap where
  "conf_over =
     [(''l'', VSlice [VInt (of_int64 2), VInt (of_int64 3)]),
      (''a'', VMap [(''1'', VInt (of_int64 100)), (''3'', VInt (of_int64 3))])]"

definition conf_merged :: gmap where
  "conf_merged =
     [(''a'', VMap [(''1'', VInt (of_int64 100)), (''2'', VInt (of_int64 2)),
        (''3'', VInt (of_int64 3))]),
      (''l'', VSlice [VInt (of_int64 1), VInt (of_int64 2), VInt (of_int64 3)])]"

lemmas conf_defs = conf_base_def conf_over_def conf_merged_def

lemma conf_wf [simp]: "wfm conf_base" "wfm conf_over" "wfm conf_merged"
  by (simp_all add: conf_defs wfm_def gm_ok_def)

lemma conf_Merge: "Merge conf_base conf_over = Ok conf_merged"
  by (simp add: conf_defs Merge_def merge_loop_Cons merge_value_def mergeSlice_def gm_set_def
      of_int64_def)

theorem Merge_refines_amerge_witness:
  "wfm conf_merged \<and> absm conf_merged = amerge (absm conf_base) (absm conf_over)"
  by (rule Merge_refines_amerge [OF conf_wf(1) conf_wf(2) conf_Merge])

text \<open>
  C34. \<open>Merge\<close> returns a map or panics with a nil dereference, and it panics exactly when
  some path of keys leads to nil in both maps (\<open>reflect.TypeOf(nil).Kind()\<close>).
\<close>

theorem Merge_panics_iff_nil_clash:
  assumes "wfm m1" and "wfm m2"
  shows "(Merge m1 m2 = Panic NilDereference \<longleftrightarrow> nil_clash (VMap m1) (VMap m2)) \<and>
    ((\<exists>r. Merge m1 m2 = Ok r) \<longleftrightarrow> \<not> nil_clash (VMap m1) (VMap m2))"
  using merge_loop_total [OF assms] assms by (auto simp: wfm_ok)

theorem Merge_panics_iff_nil_clash_witness:
  "Merge [(''a'', VNil)] [(''a'', VNil)] = Panic NilDereference \<and>
   (\<exists>r. Merge [(''a'', VNil)] [(''a'', VBool True)] = Ok r)"
proof -
  have wf: "wfm [(''a'', VNil)]" "wfm [(''a'', VBool True)]"
    by (simp_all add: wfm_def gm_ok_def)
  have "nil_clash (VMap [(''a'', VNil)]) (VMap [(''a'', VNil)])"
    by (auto simp: nil_clash_VMap nil_clash_not_maps)
  moreover have "\<not> nil_clash (VMap [(''a'', VNil)]) (VMap [(''a'', VBool True)])"
    by (auto simp: nil_clash_VMap nil_clash_not_maps)
  ultimately show ?thesis
    using Merge_panics_iff_nil_clash [OF wf(1) wf(1)] Merge_panics_iff_nil_clash [OF wf]
    by blast
qed

section \<open>Paths in meanings\<close>

fun avalue_at :: "aval \<Rightarrow> string list \<Rightarrow> aval option" where
  "avalue_at v [] = Some v"
| "avalue_at v (k # ks) =
     Option.bind (as_amap v) (\<lambda>f. Option.bind (f k) (\<lambda>w. avalue_at w ks))"

lemma value_at_absv:
  "map_option absv (value_at v (map VString ks)) = avalue_at (absv v) ks"
proof (induction ks arbitrary: v)
  case Nil
  then show ?case by simp
next
  case (Cons k ks)
  show ?case
  proof (cases "as_map v")
    case None
    then show ?thesis by (simp add: as_amap_absv)
  next
    case (Some m)
    then show ?thesis
      using Cons by (cases "gm_get m k") (auto simp: as_amap_absv absm_def)
  qed
qed

lemma value_at_leaf:
  assumes "as_map v = None" and "as_slice v = None"
  shows "value_at w (map VString ks) = Some v \<longleftrightarrow> avalue_at (absv w) ks = Some (absv v)"
proof -
  have "absv x = absv v \<longleftrightarrow> x = v" for x
    using assms by (cases v) auto
  then show ?thesis
    unfolding value_at_absv [symmetric] by (cases "value_at w (map VString ks)") auto
qed

lemma nil_clash_absv:
  "nil_clash v w \<longleftrightarrow> (\<exists>ks. avalue_at (absv v) ks = Some ANil \<and> avalue_at (absv w) ks = Some ANil)"
  by (simp add: nil_clash_def value_at_leaf)

lemma avalue_at_amergev:
  "avalue_at w ks = Some u \<Longrightarrow> as_amap u = None \<Longrightarrow> as_aslice u = None \<Longrightarrow>
    avalue_at (amergev v w) ks = Some u"
proof (induction ks arbitrary: v w)
  case Nil
  then show ?case by (auto simp: amergev_cases split: option.splits)
next
  case (Cons k ks)
  then obtain g w' where w: "as_amap w = Some g" "g k = Some w'" "avalue_at w' ks = Some u"
    by (auto simp: bind_eq_Some_conv)
  then have noslice: "as_aslice w = None" by (cases w) auto
  show ?case
  proof (cases "as_amap v")
    case None
    then have "amergev v w = w"
      using w noslice by (auto simp: amergev_cases split: option.splits)
    with Cons.prems(1) show ?thesis by simp
  next
    case (Some f)
    then show ?thesis
      using w Cons.IH [OF w(3) Cons.prems(2,3)]
      by (auto simp: amergev_cases amerge_def split: option.splits)
  qed
qed

primrec canon :: "aval \<Rightarrow> aval" where
  "canon ANil = ANil"
| "canon (ABool b) = ABool b"
| "canon (AInt n) = AInt n"
| "canon (AString s) = AString s"
| "canon (ASlice xs) = (if xs = [] then ANilSlice else ASlice xs)"
| "canon ANilSlice = ANilSlice"
| "canon (AMap f) = AMap (map_option canon \<circ> f)"
| "canon ANilMap = AMap Map.empty"
| "canon (AOther t k n) = AOther t k n"

lemma amergev_self: "amergev v v = canon v"
proof (induction v)
  case (AMap f)
  have "amerge f f k = map_option canon (f k)" for k
    using AMap [of "f k"] by (cases "f k") (auto simp: amerge_def intro: AMap)
  then show ?case by (simp add: amergev_AMap fun_eq_iff)
qed (auto simp: union_slice_def filter_empty_conv)

text \<open>
  C35. The iteration orders of the two maps do not matter: for any two representations of
  the same two maps \<open>Merge\<close> panics on both or returns deeply equal maps.
\<close>

theorem Merge_order_independent:
  assumes "wfm m1" and "wfm m2" and "wfm m1'" and "wfm m2'"
    and "absm m1 = absm m1'" and "absm m2 = absm m2'"
  shows "Merge m1 m2 = Panic NilDereference \<and> Merge m1' m2' = Panic NilDereference \<or>
    (\<exists>r r'. Merge m1 m2 = Ok r \<and> Merge m1' m2' = Ok r' \<and> deep_equal (VMap r) (VMap r'))"
proof -
  have same: "nil_clash (VMap m1) (VMap m2) \<longleftrightarrow> nil_clash (VMap m1') (VMap m2')"
    using assms(5,6) by (simp add: nil_clash_absv)
  have eqs: "Merge m1 m2 = merge_loop m1 m2" "Merge m1' m2' = merge_loop m1' m2'"
    using assms by (simp_all add: wfm_ok)
  have "deep_equal (VMap r) (VMap r')"
    if "merge_loop m1 m2 = Ok r" "merge_loop m1' m2' = Ok r'" for r r'
    using merge_loop_refines [OF assms(1,2) that(1)] merge_loop_refines [OF assms(3,4) that(2)]
      assms(5,6) by (subst deep_equal_absv) (auto simp: wfm_def)
  then show ?thesis
    using merge_loop_total [OF assms(1,2)] merge_loop_total [OF assms(3,4)] same
    unfolding eqs by blast
qed

theorem Merge_order_independent_witness:
  "\<exists>r r'. Merge conf_base conf_over = Ok r \<and> Merge (rev conf_base) (rev conf_over) = Ok r' \<and>
     deep_equal (VMap r) (VMap r')"
proof -
  have wf: "wfm (rev conf_base)" "wfm (rev conf_over)"
    by (simp_all add: conf_defs wfm_def gm_ok_def)
  have abs: "absm conf_base = absm (rev conf_base)" "absm conf_over = absm (rev conf_over)"
    by (auto simp: conf_defs absm_def fun_eq_iff)
  show ?thesis
    using Merge_order_independent [OF conf_wf(1,2) wf abs] conf_Merge by auto
qed

text \<open>
  The second map wins at the leaves: what \<open>ChainGet\<close> finds in \<open>map2\<close> along string keys, and
  is neither a map nor a slice, it finds in the merged map along the same keys.
\<close>

theorem Merge_second_leaf_wins:
  assumes "wfm m1" and "wfm m2" and "Merge m1 m2 = Ok r"
    and found: "ChainGet V m2 (map VString ks) = Ok v"
    and leaf: "as_map v = None" "as_slice v = None"
  shows "ChainGet V r (map VString ks) = Ok v"
proof -
  have r: "absv (VMap r) = amergev (absv (VMap m1)) (absv (VMap m2))"
    using merge_loop_refines [OF assms(1,2)] assms(1,3) by (simp add: wfm_ok amergev_AMap)
  have path: "value_at (VMap m2) (map VString ks) = Some v"
      and ks: "ks \<noteq> []" and V: "has_type V v"
    using found by (auto simp: ChainGet_Ok)
  have "avalue_at (absv (VMap r)) ks = Some (absv v)"
    unfolding r by (rule avalue_at_amergev)
      (use path leaf in \<open>auto simp: value_at_leaf as_amap_absv as_aslice_absv\<close>)
  then have "value_at (VMap r) (map VString ks) = Some v"
    using value_at_leaf [OF leaf] by blast
  then show ?thesis
    using ks V by (simp add: ChainGet_Ok)
qed

theorem Merge_second_leaf_wins_witness:
  "ChainGet (Concrete TInt) conf_merged [VString ''a'', VString ''1''] = Ok (VInt (of_int64 100))"
proof -
  have "ChainGet (Concrete TInt) conf_over (map VString [''a'', ''1'']) = Ok (VInt (of_int64 100))"
    by (simp add: ChainGet_def conf_over_def)
  from Merge_second_leaf_wins [OF conf_wf(1,2) conf_Merge this] show ?thesis by simp
qed

text \<open>
  Merging a map with itself keeps every value, except that empty slices become nil
  slices and nil maps below the top become empty maps (\<open>canon\<close>).
\<close>

theorem Merge_self:
  assumes "wfm m" and "Merge m m = Ok r"
  shows "absm r = map_option canon \<circ> absm m"
proof -
  have "AMap (absm r) = amergev (AMap (absm m)) (AMap (absm m))"
    using merge_loop_refines [OF assms(1,1)] assms by (simp add: wfm_ok amergev_AMap)
  then show ?thesis by (simp add: amergev_self)
qed

theorem Merge_self_witness:
  "absm [(''a'', VNilSlice)] = map_option canon \<circ> absm [(''a'', VSlice [])] \<and>
   \<not> deep_equal (VMap [(''a'', VNilSlice)]) (VMap [(''a'', VSlice [])])"
proof -
  have "wfm [(''a'', VSlice [])]"
    by (simp add: wfm_def gm_ok_def)
  moreover have "Merge [(''a'', VSlice [])] [(''a'', VSlice [])] = Ok [(''a'', VNilSlice)]"
    by (simp add: Merge_def merge_loop_Cons merge_value_def mergeSlice_def gm_set_def)
  ultimately have "absm [(''a'', VNilSlice)] = map_option canon \<circ> absm [(''a'', VSlice [])]"
    by (rule Merge_self)
  then show ?thesis by simp
qed

end
