(* ===== verification/Raw_Diff.thy ===== *)
theory Raw_Diff
  imports Raw_Value "HOL-Library.More_List"
begin

text \<open>
  \<open>Diff\<close> and \<open>diff\<close> of \<open>raw/diff.go\<close>, the difference of meanings they compute (\<open>adiff\<close>), and
  the equality of values that an empty difference stands for (\<open>norm\<close>). \<open>json.Marshal\<close> and
  \<open>json.Unmarshal\<close>, which \<open>Diff\<close> applies to arguments that are not maps, are arguments of
  the model.
\<close>

section \<open>The functions\<close>

text \<open>\<open>fmt.Sprint\<close> of a loop index: its decimal digits.\<close>

definition digit :: "nat \<Rightarrow> char" where
  "digit n = char_of (48 + n)"

fun sprint :: "nat \<Rightarrow> string" where
  "sprint n = (if n < 10 then [digit n] else sprint (n div 10) @ [digit (n mod 10)])"

declare sprint.simps [simp del]

text \<open>The array loop: an element past the end of a slice is the nil interface.\<close>

definition elem_at :: "goval list \<Rightarrow> nat \<Rightarrow> goval" where
  "elem_at xs i = (if i < length xs then xs ! i else VNil)"

text \<open>
  The map under \<open>result["array"]\<close>, made when it is nil. The assertion to a map succeeds,
  since the loop writes nothing else there.
\<close>

definition array_entry :: "gmap \<Rightarrow> gmap" where
  "array_entry result =
     (case gm_get result ''array'' of
        None \<Rightarrow> []
      | Some v \<Rightarrow> (case as_map v of None \<Rightarrow> [] | Some arr \<Rightarrow> arr))"

fun diff_elems :: "goval list \<Rightarrow> goval list \<Rightarrow> nat list \<Rightarrow> gmap \<Rightarrow> gmap" where
  "diff_elems aVal bVal [] result = result"
| "diff_elems aVal bVal (i # ixs) result =
     (let valA = elem_at aVal i; valB = elem_at bVal i
      in diff_elems aVal bVal ixs
           (if \<not> deep_equal valA valB
            then gm_set ''array'' (VMap (gm_set (sprint i) valB (array_entry result))) result
            else result))"

text \<open>The second loop over maps: the keys of \<open>b\<close> that \<open>a\<close> lacks.\<close>

fun diff_missing :: "gmap \<Rightarrow> gmap \<Rightarrow> gmap \<Rightarrow> gmap" where
  "diff_missing aVal [] result = result"
| "diff_missing aVal ((key, valB) # rest) result =
     diff_missing aVal rest
       (if gm_get aVal key = None then gm_set key valB result else result)"

function diff :: "goval \<Rightarrow> goval \<Rightarrow> gmap"
  and diff_keys :: "gmap \<Rightarrow> gmap \<Rightarrow> gmap \<Rightarrow> gmap" where
  "diff a b =
     (case as_map a of
        Some aVal \<Rightarrow>
          (case as_map b of
             None \<Rightarrow> [([], b)]
           | Some bVal \<Rightarrow> diff_missing aVal bVal (diff_keys aVal bVal []))
      | None \<Rightarrow>
        (case as_slice a of
           Some aVal \<Rightarrow>
             (case as_slice b of
                None \<Rightarrow> [([], b)]
              | Some bVal \<Rightarrow>
                  diff_elems aVal bVal [0..<max (length aVal) (length bVal)] [])
         | None \<Rightarrow> if deep_equal a b then [] else [([], b)]))"
| "diff_keys [] bVal result = result"
| "diff_keys ((key, valA) # rest) bVal result =
     (case gm_get bVal key of
        Some valB \<Rightarrow>
          if \<not> deep_equal valA valB then
            let diffResult = diff valA valB
            in if length diffResult \<noteq> 0
               then diff_keys rest bVal (gm_set key (VMap diffResult) result)
               else diff_keys rest bVal result
          else diff_keys rest bVal result
      | None \<Rightarrow> diff_keys rest bVal (gm_set key VNil result))"
  by pat_completeness auto
termination
  by (relation "measure (case_sum (\<lambda>(a, b). 2 * size a + 1)
      (\<lambda>(m, n, r). 2 * size_list (size_prod (\<lambda>_. 0) size) m))")
    (auto dest: size_as_map)

declare diff.simps [simp del]

text \<open>
  An argument of \<open>Diff\<close> that is not a \<open>Map\<close> goes through JSON.
\<close>

definition to_map ::
  "(goval \<Rightarrow> 'e + string) \<Rightarrow> (string \<Rightarrow> 'e + gmap) \<Rightarrow> goval \<Rightarrow> ('e, gmap) outcome" where
  "to_map marshal unmarshal a =
     (case as_map a of
        Some am \<Rightarrow> Ok am
      | None \<Rightarrow>
        (case marshal a of
           Inl err \<Rightarrow> Err err
         | Inr abytes \<Rightarrow>
           (case unmarshal abytes of Inl err \<Rightarrow> Err err | Inr am \<Rightarrow> Ok am)))"

definition Diff ::
  "(goval \<Rightarrow> 'e + string) \<Rightarrow> (string \<Rightarrow> 'e + gmap) \<Rightarrow> goval \<Rightarrow> goval \<Rightarrow> ('e, gmap) outcome" where
  "Diff marshal unmarshal a b =
     obind (to_map marshal unmarshal a) (\<lambda>am.
     obind (to_map marshal unmarshal b) (\<lambda>bm. Ok (diff (VMap am) (VMap bm))))"

section \<open>Decimal digits\<close>

fun read_digits :: "string \<Rightarrow> nat \<Rightarrow> nat" where
  "read_digits [] n = n"
| "read_digits (c # cs) n = read_digits cs (10 * n + (of_char c - 48))"

lemma read_digits_append: "read_digits (cs @ ds) n = read_digits ds (read_digits cs n)"
  by (induction cs arbitrary: n) auto

lemma of_char_digit: "n < 10 \<Longrightarrow> of_char (digit n) = 48 + n"
  by (simp add: digit_def of_char_of)

lemma read_sprint: "read_digits (sprint n) 0 = n"
proof (induction n rule: sprint.induct)
  case (1 n)
  show ?case
  proof (cases "n < 10")
    case True
    then show ?thesis by (simp add: sprint.simps [of n] of_char_digit)
  next
    case False
    then show ?thesis
      using 1 by (simp add: sprint.simps [of n] read_digits_append of_char_digit)
  qed
qed

lemma sprint_inject [simp]: "sprint i = sprint j \<longleftrightarrow> i = j"
  by (metis read_sprint)

section \<open>The difference of meanings\<close>

definition elems_diff :: "aval list \<Rightarrow> aval list \<Rightarrow> nat list \<Rightarrow> string \<Rightarrow> aval option" where
  "elems_diff xs ys ixs =
     map_of (map (\<lambda>i. (sprint i, nth_default ANil ys i))
       (filter (\<lambda>i. nth_default ANil xs i \<noteq> nth_default ANil ys i) ixs))"

definition adiff_slices :: "aval list \<Rightarrow> aval list \<Rightarrow> string \<Rightarrow> aval option" where
  "adiff_slices xs ys =
     (let d = elems_diff xs ys [0..<max (length xs) (length ys)]
      in if d = Map.empty then Map.empty else [''array'' \<mapsto> AMap d])"

text \<open>
  The difference of two maps: nested differences that are not empty, nil for a key that
  only the first map has, the second map's value for a key only it has. A value of another
  type, or a changed scalar, is reported under the empty key.
\<close>

primrec adiff :: "aval \<Rightarrow> aval \<Rightarrow> string \<Rightarrow> aval option" where
  "adiff ANil = (\<lambda>w. if w = ANil then Map.empty else [[] \<mapsto> w])"
| "adiff (ABool b) = (\<lambda>w. if w = ABool b then Map.empty else [[] \<mapsto> w])"
| "adiff (AInt n) = (\<lambda>w. if w = AInt n then Map.empty else [[] \<mapsto> w])"
| "adiff (AString s) = (\<lambda>w. if w = AString s then Map.empty else [[] \<mapsto> w])"
| "adiff (ASlice xs) = (\<lambda>w. case as_aslice w of None \<Rightarrow> [[] \<mapsto> w] | Some ys \<Rightarrow> adiff_slices xs ys)"
| "adiff ANilSlice = (\<lambda>w. case as_aslice w of None \<Rightarrow> [[] \<mapsto> w] | Some ys \<Rightarrow> adiff_slices [] ys)"
| "adiff (AMap f) = (\<lambda>w. case as_amap w of None \<Rightarrow> [[] \<mapsto> w] | Some g \<Rightarrow>
     (\<lambda>k. case (map_option adiff \<circ> f) k of
            None \<Rightarrow> g k
          | Some d \<Rightarrow>
              (case g k of
                 None \<Rightarrow> Some ANil
               | Some y \<Rightarrow>
                   if f k = Some y \<or> d y = Map.empty then None else Some (AMap (d y)))))"
| "adiff ANilMap = (\<lambda>w. case as_amap w of None \<Rightarrow> [[] \<mapsto> w] | Some g \<Rightarrow> g)"
| "adiff (AOther t k n) = (\<lambda>w. if w = AOther t k n then Map.empty else [[] \<mapsto> w])"

definition adiff_maps :: "(string \<rightharpoonup> aval) \<Rightarrow> (string \<rightharpoonup> aval) \<Rightarrow> (string \<rightharpoonup> aval)" where
  "adiff_maps f g k =
     (case (f k, g k) of
        (None, y) \<Rightarrow> y
      | (Some x, None) \<Rightarrow> Some ANil
      | (Some x, Some y) \<Rightarrow>
          if x = y \<or> adiff x y = Map.empty then None else Some (AMap (adiff x y)))"

lemma adiff_AMap:
  "adiff (AMap f) w = (case as_amap w of None \<Rightarrow> [[] \<mapsto> w] | Some g \<Rightarrow> adiff_maps f g)"
  by (auto simp: adiff_maps_def fun_eq_iff split: option.splits)

declare adiff.simps(7) [simp del]

lemma adiff_cases:
  "adiff v w =
     (case as_amap v of
        Some f \<Rightarrow> (case as_amap w of None \<Rightarrow> [[] \<mapsto> w] | Some g \<Rightarrow> adiff_maps f g)
      | None \<Rightarrow>
        (case as_aslice v of
           Some xs \<Rightarrow> (case as_aslice w of None \<Rightarrow> [[] \<mapsto> w] | Some ys \<Rightarrow> adiff_slices xs ys)
         | None \<Rightarrow> if v = w then Map.empty else [[] \<mapsto> w]))"
  by (cases v) (auto simp: adiff_AMap adiff_maps_def fun_eq_iff split: option.splits)

lemma gm_get_diff_missing:
  "gm_ok b \<Longrightarrow> gm_get (diff_missing a b r) k =
     (if gm_get a k = None \<and> gm_get b k \<noteq> None then gm_get b k else gm_get r k)"
proof (induction b arbitrary: r)
  case Nil
  then show ?case by simp
next
  case (Cons e b)
  obtain k' v where "e = (k', v)" by force
  with Cons show ?case by (auto simp: gm_ok_Cons)
qed

lemma gm_get_diff_keys:
  "gm_ok a \<Longrightarrow> gm_get (diff_keys a b r) k =
     (case gm_get a k of
        None \<Rightarrow> gm_get r k
      | Some x \<Rightarrow>
          (case gm_get b k of
             None \<Rightarrow> Some VNil
           | Some y \<Rightarrow> if deep_equal x y \<or> diff x y = [] then gm_get r k
                       else Some (VMap (diff x y))))"
proof (induction a arbitrary: r)
  case Nil
  then show ?case by simp
next
  case (Cons e a)
  obtain k' x where e: "e = (k', x)" by force
  have ok: "gm_ok a" and new: "gm_get a k' = None"
    using Cons.prems by (auto simp: e gm_ok_Cons)
  show ?case
    using Cons.IH [OF ok] new
    by (cases "k = k'") (auto simp: e Let_def split: option.splits)
qed

text \<open>What \<open>diff\<close> reports for each key of two maps.\<close>

lemma gm_get_diff_maps:
  assumes "as_map a = Some m" and "as_map b = Some n" and "gm_ok m" and "gm_ok n"
  shows "gm_get (diff a b) k =
     (case (gm_get m k, gm_get n k) of
        (None, y) \<Rightarrow> y
      | (Some x, None) \<Rightarrow> Some VNil
      | (Some x, Some y) \<Rightarrow>
          if deep_equal x y \<or> diff x y = [] then None else Some (VMap (diff x y)))"
  using assms by (subst diff.simps)
    (auto simp: gm_get_diff_missing gm_get_diff_keys split: option.splits)

section \<open>Refinement\<close>

lemma wfv_elem_at: "(\<And>x. x \<in> set xs \<Longrightarrow> wfv x) \<Longrightarrow> wfv (elem_at xs i)"
  by (auto simp: elem_at_def)

lemma absv_elem_at: "absv (elem_at xs i) = nth_default ANil (map absv xs) i"
  by (simp add: elem_at_def nth_default_def)

text \<open>The array loop on results that hold nothing but the array entry.\<close>

lemma diff_elems_result:
  assumes "\<And>x. x \<in> set xs \<Longrightarrow> wfv x" and "\<And>y. y \<in> set ys \<Longrightarrow> wfv y"
    and "distinct ixs" and "sprint ` set ixs \<inter> fst ` set arr = {}"
  shows "diff_elems xs ys ixs (if arr = [] then [] else [(''array'', VMap arr)]) =
    (let arr' = arr @ map (\<lambda>i. (sprint i, elem_at ys i))
       (filter (\<lambda>i. absv (elem_at xs i) \<noteq> absv (elem_at ys i)) ixs)
     in if arr' = [] then [] else [(''array'', VMap arr')])"
  using assms(3,4)
proof (induction ixs arbitrary: arr)
  case Nil
  then show ?case by simp
next
  case (Cons i js)
  let ?r = "if arr = [] then [] else [(''array'', VMap arr)]"
  have eq: "deep_equal (elem_at xs i) (elem_at ys i) \<longleftrightarrow> absv (elem_at xs i) = absv (elem_at ys i)"
    using assms(1,2) by (simp add: deep_equal_absv wfv_elem_at)
  have arr: "array_entry ?r = arr"
    by (simp add: array_entry_def)
  have new: "gm_get arr (sprint i) = None"
    using Cons.prems by (auto simp: gm_get_eq_None)
  have set': "gm_set ''array'' v ?r = [(''array'', v)]" for v
    by (simp add: gm_set_def)
  show ?case
  proof (cases "absv (elem_at xs i) = absv (elem_at ys i)")
    case True
    then show ?thesis
      using Cons.IH [of arr] Cons.prems eq by (simp add: Let_def)
  next
    case False
    have "diff_elems xs ys js (if arr @ [(sprint i, elem_at ys i)] = [] then []
        else [(''array'', VMap (arr @ [(sprint i, elem_at ys i)]))]) =
      (let arr' = (arr @ [(sprint i, elem_at ys i)]) @ map (\<lambda>i. (sprint i, elem_at ys i))
         (filter (\<lambda>i. absv (elem_at xs i) \<noteq> absv (elem_at ys i)) js)
       in if arr' = [] then [] else [(''array'', VMap arr')])"
      using Cons.prems by (intro Cons.IH) auto
    then show ?thesis
      using False eq arr set' gm_set_eq_append [OF new] by (simp add: Let_def)
  qed
qed

lemma absm_alt: "absm m = map_of (map (\<lambda>(k, v). (k, absv v)) m)"
  by (simp add: fun_eq_iff absm_def gm_get_map_values flip: gm_get_def)

lemma absm_empty_iff: "absm m = Map.empty \<longleftrightarrow> m = []"
  using gm_nonempty [of m] by (auto simp: fun_eq_iff absm_def)

lemma diff_slices:
  assumes "as_slice a = Some xs" and "as_slice b = Some ys"
    and wf: "\<And>x. x \<in> set xs \<Longrightarrow> wfv x" "\<And>y. y \<in> set ys \<Longrightarrow> wfv y"
  shows "wfm (diff a b) \<and> absm (diff a b) = adiff_slices (map absv xs) (map absv ys)"
proof -
  let ?ixs = "[0..<max (length xs) (length ys)]"
  let ?js = "filter (\<lambda>i. absv (elem_at xs i) \<noteq> absv (elem_at ys i)) ?ixs"
  define arr where "arr = map (\<lambda>i. (sprint i, elem_at ys i)) ?js"
  have "as_map a = None" using assms(1) by (cases a) auto
  then have d: "diff a b = (if arr = [] then [] else [(''array'', VMap arr)])"
    using diff_elems_result [OF wf, where ixs = ?ixs and arr = "[]"] assms(1,2)
    by (subst diff.simps) (simp add: Let_def arr_def)
  have "distinct (map fst arr)"
    by (simp add: arr_def distinct_map comp_def inj_on_def)
  then have wfarr: "wfm arr"
    using wf by (auto simp: wfm_def gm_ok_def arr_def wfv_elem_at)
  have absarr: "absm arr = elems_diff (map absv xs) (map absv ys) ?ixs"
    by (simp add: absm_alt arr_def elems_diff_def comp_def absv_elem_at)
  show ?thesis
  proof (cases "arr = []")
    case True
    then show ?thesis
      using absarr by (simp add: d adiff_slices_def Let_def)
  next
    case False
    then have "elems_diff (map absv xs) (map absv ys) ?ixs \<noteq> Map.empty"
      using absarr absm_empty_iff [of arr] by simp
    then show ?thesis
      using False wfarr absarr by (simp add: d adiff_slices_def absm_Cons wfm_def)
  qed
qed

lemma gm_ok_diff_missing: "gm_ok r \<Longrightarrow> gm_ok (diff_missing a b r)"
proof (induction b arbitrary: r)
  case (Cons e b)
  then show ?case by (cases e) simp
qed simp

lemma gm_ok_diff_keys: "gm_ok r \<Longrightarrow> gm_ok (diff_keys a b r)"
proof (induction a arbitrary: r)
  case (Cons e a)
  then show ?case by (cases e) (simp add: Let_def split: option.split)
qed simp

text \<open>The case of two maps, when the difference of their values is already understood.\<close>

lemma diff_of_maps_wf:
  assumes maps: "as_map a = Some m" "as_map b = Some n" and wf: "wfm m" "wfm n"
    and IH: "\<And>k x y. gm_get m k = Some x \<Longrightarrow> wfv y \<Longrightarrow> wfm (diff x y)"
  shows "wfm (diff a b)"
proof -
  note get = gm_get_diff_maps [OF maps wfm_ok [OF wf(1)] wfm_ok [OF wf(2)]]
  have "gm_ok (diff a b)"
    using maps by (subst diff.simps) (auto intro: gm_ok_diff_missing gm_ok_diff_keys)
  moreover have "wfv v" if "gm_get (diff a b) k = Some v" for k v
  proof (cases "gm_get m k")
    case None
    with that wf(2) show ?thesis by (simp add: get wfm_get)
  next
    case (Some x)
    show ?thesis
    proof (cases "gm_get n k")
      case None
      with that Some show ?thesis by (auto simp: get)
    next
      case y: (Some y)
      have "wfm (diff x y)"
        using IH [OF Some wfm_get [OF wf(2) y]] by simp
      with that Some y show ?thesis by (auto simp: get wfm_def split: if_splits)
    qed
  qed
  ultimately show ?thesis by (simp add: wfm_iff)
qed

lemma diff_of_maps_abs:
  assumes maps: "as_map a = Some m" "as_map b = Some n" and wf: "wfm m" "wfm n"
    and IH: "\<And>k x y. gm_get m k = Some x \<Longrightarrow> wfv y \<Longrightarrow>
      wfm (diff x y) \<and> absm (diff x y) = adiff (absv x) (absv y)"
  shows "absm (diff a b) k = adiff_maps (absm m) (absm n) k"
proof -
  note get = gm_get_diff_maps [OF maps wfm_ok [OF wf(1)] wfm_ok [OF wf(2)]]
  show ?thesis
  proof (cases "gm_get m k")
    case None
    then show ?thesis by (simp add: absm_def [of _ k] get adiff_maps_def)
  next
    case (Some x)
    show ?thesis
    proof (cases "gm_get n k")
      case None
      with Some show ?thesis by (simp add: absm_def [of _ k] get adiff_maps_def)
    next
      case y: (Some y)
      then have wfxy: "wfv x" "wfv y" using wf Some by (auto intro: wfm_get)
      then show ?thesis
        using IH [OF Some wfxy(2)] Some y absm_empty_iff [of "diff x y"]
        by (auto simp: absm_def [of _ k] get adiff_maps_def deep_equal_absv)
    qed
  qed
qed

lemma diff_refines:
  "wfv a \<Longrightarrow> wfv b \<Longrightarrow> wfm (diff a b) \<and> absm (diff a b) = adiff (absv a) (absv b)"
proof (induction a arbitrary: b rule: measure_induct_rule [where f = size])
  case (less a)
  consider (map) m n where "as_map a = Some m" "as_map b = Some n"
    | (slice) xs ys where "as_map a = None" "as_slice a = Some xs" "as_slice b = Some ys"
    | (clash) "as_map a \<noteq> None \<and> as_map b = None \<or>
        as_map a = None \<and> as_slice a \<noteq> None \<and> as_slice b = None"
    | (other) "as_map a = None" "as_slice a = None"
    by fastforce
  then show ?case
  proof cases
    case map
    have wf: "wfm m" "wfm n"
      using less.prems map by (auto intro: wfv_as_map)
    have IH: "wfm (diff x y) \<and> absm (diff x y) = adiff (absv x) (absv y)"
      if "gm_get m k = Some x" "wfv y" for k x y
    proof (rule less.IH)
      show "size x < size a"
        using size_map_entry [OF gm_get_mem [OF that(1)]] map(1) that(1)
        by (auto elim: as_map_SomeE)
    qed (use wf that in \<open>auto intro: wfm_get\<close>)
    show ?thesis
      using diff_of_maps_wf [OF map wf] diff_of_maps_abs [OF map wf IH] IH map
      by (simp add: adiff_cases as_amap_absv fun_eq_iff)
  next
    case slice
    have "adiff (absv a) (absv b) = adiff_slices (map absv xs) (map absv ys)"
      using slice by (simp add: adiff_cases as_amap_absv as_aslice_absv)
    then show ?thesis
      using diff_slices [OF slice(2,3)] slice less.prems by (auto intro: wfv_as_slice)
  next
    case clash
    then have "diff a b = [([], b)]"
      by (subst diff.simps) (auto split: option.splits)
    moreover have "adiff (absv a) (absv b) = [[] \<mapsto> absv b]"
      using clash unfolding adiff_cases [of "absv a"] as_amap_absv as_aslice_absv by auto
    ultimately show ?thesis
      using less.prems by (simp add: wfm_Cons absm_Cons)
  next
    case other
    then have "diff a b = (if absv a = absv b then [] else [([], b)])"
      using less.prems by (subst diff.simps) (auto simp: deep_equal_absv)
    moreover have "adiff (absv a) (absv b) =
        (if absv a = absv b then Map.empty else [[] \<mapsto> absv b])"
      using other unfolding adiff_cases [of "absv a"] as_amap_absv as_aslice_absv by simp
    ultimately show ?thesis
      using less.prems by (simp add: wfm_Cons absm_Cons)
  qed
qed

section \<open>What an empty difference means\<close>

text \<open>
  The values \<open>diff\<close> cannot tell apart have the same normal form: nil maps are empty maps,
  nil slices empty slices, and a slice ends at its last non-nil element.
\<close>

primrec norm :: "aval \<Rightarrow> aval" where
  "norm ANil = ANil"
| "norm (ABool b) = ABool b"
| "norm (AInt n) = AInt n"
| "norm (AString s) = AString s"
| "norm (ASlice xs) = ASlice (strip_while (HOL.eq ANil) xs)"
| "norm ANilSlice = ASlice []"
| "norm (AMap f) = AMap (map_option norm \<circ> f)"
| "norm ANilMap = AMap Map.empty"
| "norm (AOther t k n) = AOther t k n"

lemma single_entry_nonempty [simp]:
  "(\<lambda>a. if a = k then Some v else None) \<noteq> (\<lambda>_. None)"
  by (metis option.discI)




lemma norm_slice: "as_aslice v = Some xs \<Longrightarrow> norm v = ASlice (strip_while (HOL.eq ANil) xs)"
  by (cases v) auto


section \<open>Properties\<close>

text \<open>
  C5. \<open>diff\<close> computes the difference of meanings, whatever the iteration orders of the maps:
  the meaning of its result is \<open>adiff\<close> of the meanings of its arguments, and the result is a
  map with distinct keys.
\<close>

theorem diff_refines_adiff:
  assumes "wfv a" and "wfv b"
  shows "wfm (diff a b) \<and> absm (diff a b) = adiff (absv a) (absv b)"
  by (rule diff_refines [OF assms])

definition doc_a :: gmap where
  "doc_a =
     [(''A'', VString ''a''), (''B'', VString ''b''),
      (''C'', VMap [(''E'', VString ''ae''), (''F'', VInt (of_int64 0))]),
      (''D'', VString ''whocares'')]"

definition doc_b :: gmap where
  "doc_b =
     [(''B'', VString ''bb''),
      (''C'', VMap [(''F'', VInt (of_int64 10)), (''E'', VString ''be'')]),
      (''A'', VString ''a'')]"

lemma doc_wf [simp]: "wfv (VMap doc_a)" "wfv (VMap doc_b)"
  by (simp_all add: doc_a_def doc_b_def gm_ok_def)

theorem diff_refines_adiff_witness:
  "wfm (diff (VMap doc_a) (VMap doc_b)) \<and>
   absm (diff (VMap doc_a) (VMap doc_b)) = adiff (absv (VMap doc_a)) (absv (VMap doc_b))"
  by (rule diff_refines_adiff [OF doc_wf])



text \<open>
  Key by key, \<open>Diff\<close> of two maps reports: nothing for a key whose values are deeply equal
  or differ by nothing \<open>diff\<close> sees, the nested difference for any other common key, the
  second map's value for a key only it has, and nil for a key only the first map has.
\<close>

theorem Diff_of_maps:
  assumes "as_map a = Some m" and "as_map b = Some n" and "gm_ok m" and "gm_ok n"
  shows "\<exists>d. Diff marshal unmarshal a b = Ok d \<and>
    (\<forall>k. gm_get d k =
       (case (gm_get m k, gm_get n k) of
          (None, y) \<Rightarrow> y
        | (Some x, None) \<Rightarrow> Some VNil
        | (Some x, Some y) \<Rightarrow>
            if deep_equal x y \<or> diff x y = [] then None else Some (VMap (diff x y))))"
proof (intro exI conjI allI)
  show "Diff marshal unmarshal a b = Ok (diff (VMap m) (VMap n))"
    using assms by (simp add: Diff_def to_map_def)
qed (rule gm_get_diff_maps; use assms in simp)

theorem Diff_of_maps_witness:
  "\<exists>d. Diff (\<lambda>_. Inl ()) (\<lambda>_. Inl ()) (VMap doc_a) (VMap doc_b) = Ok d \<and>
     gm_get d ''A'' = None \<and> gm_get d ''B'' = Some (VMap [([], VString ''bb'')]) \<and>
     gm_get d ''D'' = Some VNil"
proof -
  have ok: "gm_ok doc_a" "gm_ok doc_b" using doc_wf by simp_all
  obtain d where d: "Diff (\<lambda>_. Inl ()) (\<lambda>_. Inl ()) (VMap doc_a) (VMap doc_b) = Ok d"
    and get: "\<forall>k. gm_get d k =
       (case (gm_get doc_a k, gm_get doc_b k) of
          (None, y) \<Rightarrow> y
        | (Some x, None) \<Rightarrow> Some VNil
        | (Some x, Some y) \<Rightarrow>
            if deep_equal x y \<or> diff x y = [] then None else Some (VMap (diff x y)))"
    using Diff_of_maps [OF as_map.simps(1) as_map.simps(1) ok] by blast
  have "diff (VString ''b'') (VString ''bb'') = [([], VString ''bb'')]"
    by (simp add: diff.simps)
  then show ?thesis
    using d by (intro exI [of _ d]) (simp add: get doc_a_def doc_b_def)
qed

end
