(* ===== verification/Safe_Map.thy ===== *)
theory Safe_Map
  imports Quiver_Prelude
begin

text \<open>
  \<open>safe/map.go\<close>: the thread-safe map. The first section has the operations as one caller
  sees them; the second the same operations as threads run them, with the \<open>RWMutex\<close> and the
  several steps of the methods that read more than once. The theorem that joins the two is
  linearizability: every run of the threads is explained by a sequential run of the
  operations.
\<close>

section \<open>The operations\<close>

record ('k, 'v) safe_map =
  entries :: "('k, 'v) gomap"

definition NewMap :: "('k, 'v) safe_map" where
  "NewMap = \<lparr>entries = []\<rparr>"

text \<open>The keys in the order in which \<open>range\<close> yields them, which the run time chooses.\<close>

definition Map_Keys :: "('k, 'v) safe_map \<Rightarrow> 'k list \<Rightarrow> bool" where
  "Map_Keys m ks \<longleftrightarrow> gm_range (entries m) ks"

definition Map_Set :: "'k \<Rightarrow> 'v \<Rightarrow> ('k, 'v) safe_map \<Rightarrow> ('k, 'v) safe_map" where
  "Map_Set k v m = m\<lparr>entries := gm_set k v (entries m)\<rparr>"

definition Map_SetIfNotExists ::
  "'k \<Rightarrow> 'v \<Rightarrow> ('k, 'v) safe_map \<Rightarrow> bool \<times> ('k, 'v) safe_map" where
  "Map_SetIfNotExists k v m =
     (if gm_get (entries m) k = None then (True, m\<lparr>entries := gm_set k v (entries m)\<rparr>)
      else (False, m))"

text \<open>\<open>None\<close> is the pair of the zero value and \<open>false\<close>.\<close>

definition Map_Get :: "('k, 'v) safe_map \<Rightarrow> 'k \<Rightarrow> 'v option" where
  "Map_Get m k = gm_get (entries m) k"

definition Map_Has :: "('k, 'v) safe_map \<Rightarrow> 'k \<Rightarrow> bool" where
  "Map_Has m k \<longleftrightarrow> gm_get (entries m) k \<noteq> None"

definition Map_Delete :: "'k \<Rightarrow> ('k, 'v) safe_map \<Rightarrow> ('k, 'v) safe_map" where
  "Map_Delete k m = m\<lparr>entries := gm_delete k (entries m)\<rparr>"

definition map_ok :: "('k, 'v) safe_map \<Rightarrow> bool" where
  "map_ok m \<longleftrightarrow> gm_ok (entries m)"

lemmas safe_map_defs =
  NewMap_def Map_Keys_def Map_Set_def Map_SetIfNotExists_def Map_Get_def Map_Has_def
  Map_Delete_def map_ok_def

interpretation sm: key_store Map_Get Map_Set Map_Delete map_ok
  by unfold_locales (simp_all add: safe_map_defs)

lemma Map_Get_New [simp]: "Map_Get NewMap k = None"
  by (simp add: safe_map_defs)

lemma map_ok_New [simp]: "map_ok NewMap"
  by (simp add: safe_map_defs)

lemma Map_Has_iff: "Map_Has m k \<longleftrightarrow> Map_Get m k \<noteq> None"
  by (simp add: safe_map_defs)

lemma Map_Keys_set: "Map_Keys m ks \<Longrightarrow> set ks = {k. Map_Get m k \<noteq> None}"
  by (simp add: safe_map_defs gm_range_set)

lemma Map_Keys_distinct: "map_ok m \<Longrightarrow> Map_Keys m ks \<Longrightarrow> distinct ks"
  by (simp add: safe_map_defs gm_range_distinct)

lemma Map_SetIfNotExists_cases:
  "Map_SetIfNotExists k v m = (if Map_Has m k then (False, m) else (True, Map_Set k v m))"
  by (simp add: safe_map_defs)

section \<open>The operations under the lock\<close>

datatype ('k, 'v) map_op =
    SetOp 'k 'v
  | SetIfNotExistsOp 'k 'v
  | GetOp 'k
  | HasOp 'k
  | DeleteOp 'k
  | KeysOp

datatype ('k, 'v) map_res = Unit | Flag bool | Found "'v option" | KeyList "'k list"

text \<open>The methods that take the write lock; the others take the read lock.\<close>

fun writes :: "('k, 'v) map_op \<Rightarrow> bool" where
  "writes (SetOp k v) = True"
| "writes (SetIfNotExistsOp k v) = True"
| "writes (DeleteOp k) = True"
| "writes op = False"

text \<open>
  Where a thread is in a method: waiting for the lock, holding it before the body, after
  the \<open>exists\<close> test of \<open>SetIfNotExists\<close>, inside the loop of \<open>Keys\<close> with the keys appended
  so far, or after the body with the deferred unlock still to run.
\<close>

datatype ('k, 'v) pc =
    Idle
  | Waiting "('k, 'v) map_op"
  | Locked "('k, 'v) map_op"
  | Checked 'k 'v bool
  | Collecting "'k list"
  | Finished "('k, 'v) map_op" "('k, 'v) map_res"

record ('t, 'k, 'v) shared_map =
  contents :: "('k, 'v) gomap"
  writer :: "'t option"
  readers :: "'t set"
  pcs :: "'t \<Rightarrow> ('k, 'v) pc"

text \<open>
  \<open>Effect\<close> marks the step of a method that makes its result final: the write, the read, or
  the end of the loop of \<open>Keys\<close>.
\<close>

datatype ('t, 'k, 'v) map_event =
    Call 't "('k, 'v) map_op"
  | Internal 't
  | Effect 't "('k, 'v) map_op" "('k, 'v) map_res"
  | Return 't "('k, 'v) map_res"

definition goto :: "'t \<Rightarrow> ('k, 'v) pc \<Rightarrow> ('t, 'k, 'v) shared_map \<Rightarrow> ('t, 'k, 'v) shared_map" where
  "goto t p s = s\<lparr>pcs := (pcs s)(t := p)\<rparr>"

definition unlock :: "'t \<Rightarrow> ('k, 'v) map_op \<Rightarrow> ('t, 'k, 'v) shared_map \<Rightarrow> ('t, 'k, 'v) shared_map" where
  "unlock t op s =
     (if writes op then s\<lparr>writer := None\<rparr> else s\<lparr>readers := readers s - {t}\<rparr>)"

inductive map_step ::
  "('t, 'k, 'v) shared_map \<Rightarrow> ('t, 'k, 'v) map_event \<Rightarrow> ('t, 'k, 'v) shared_map \<Rightarrow> bool" where
  call: "pcs s t = Idle \<Longrightarrow> map_step s (Call t op) (goto t (Waiting op) s)"
| lock: "pcs s t = Waiting op \<Longrightarrow> writes op \<Longrightarrow> writer s = None \<Longrightarrow> readers s = {} \<Longrightarrow>
    map_step s (Internal t) (goto t (Locked op) (s\<lparr>writer := Some t\<rparr>))"
| rlock: "pcs s t = Waiting op \<Longrightarrow> \<not> writes op \<Longrightarrow> writer s = None \<Longrightarrow>
    map_step s (Internal t) (goto t (Locked op) (s\<lparr>readers := insert t (readers s)\<rparr>))"
| set_body: "pcs s t = Locked (SetOp k v) \<Longrightarrow>
    map_step s (Effect t (SetOp k v) Unit)
      (goto t (Finished (SetOp k v) Unit) (s\<lparr>contents := gm_set k v (contents s)\<rparr>))"
| setnx_test: "pcs s t = Locked (SetIfNotExistsOp k v) \<Longrightarrow>
    map_step s (Internal t) (goto t (Checked k v (gm_get (contents s) k \<noteq> None)) s)"
| setnx_write: "pcs s t = Checked k v False \<Longrightarrow>
    map_step s (Effect t (SetIfNotExistsOp k v) (Flag True))
      (goto t (Finished (SetIfNotExistsOp k v) (Flag True))
        (s\<lparr>contents := gm_set k v (contents s)\<rparr>))"
| setnx_keep: "pcs s t = Checked k v True \<Longrightarrow>
    map_step s (Effect t (SetIfNotExistsOp k v) (Flag False))
      (goto t (Finished (SetIfNotExistsOp k v) (Flag False)) s)"
| get_body: "pcs s t = Locked (GetOp k) \<Longrightarrow>
    map_step s (Effect t (GetOp k) (Found (gm_get (contents s) k)))
      (goto t (Finished (GetOp k) (Found (gm_get (contents s) k))) s)"
| has_body: "pcs s t = Locked (HasOp k) \<Longrightarrow>
    map_step s (Effect t (HasOp k) (Flag (gm_get (contents s) k \<noteq> None)))
      (goto t (Finished (HasOp k) (Flag (gm_get (contents s) k \<noteq> None))) s)"
| delete_body: "pcs s t = Locked (DeleteOp k) \<Longrightarrow>
    map_step s (Effect t (DeleteOp k) Unit)
      (goto t (Finished (DeleteOp k) Unit) (s\<lparr>contents := gm_delete k (contents s)\<rparr>))"
| keys_start: "pcs s t = Locked KeysOp \<Longrightarrow>
    map_step s (Internal t) (goto t (Collecting []) s)"
| keys_next: "pcs s t = Collecting ks \<Longrightarrow> gm_get (contents s) k \<noteq> None \<Longrightarrow> k \<notin> set ks \<Longrightarrow>
    map_step s (Internal t) (goto t (Collecting (ks @ [k])) s)"
| keys_end: "pcs s t = Collecting ks \<Longrightarrow> (\<forall>(k, v) \<in> set (contents s). k \<in> set ks) \<Longrightarrow>
    map_step s (Effect t KeysOp (KeyList ks)) (goto t (Finished KeysOp (KeyList ks)) s)"
| return: "pcs s t = Finished op r \<Longrightarrow>
    map_step s (Return t r) (goto t Idle (unlock t op s))"

definition fresh_map :: "('t, 'k, 'v) shared_map" where
  "fresh_map = \<lparr>contents = [], writer = None, readers = {}, pcs = \<lambda>_. Idle\<rparr>"

lemma goto_simps [simp]:
  "contents (goto t p s) = contents s"
  "writer (goto t p s) = writer s"
  "readers (goto t p s) = readers s"
  "pcs (goto t p s) = (pcs s)(t := p)"
  by (simp_all add: goto_def)

lemma unlock_simps [simp]:
  "contents (unlock t op s) = contents s"
  "pcs (unlock t op s) = pcs s"
  by (simp_all add: unlock_def)

section \<open>The lock invariant\<close>

fun holds_write :: "('k, 'v) pc \<Rightarrow> bool" where
  "holds_write (Locked op) = writes op"
| "holds_write (Checked k v e) = True"
| "holds_write (Finished op r) = writes op"
| "holds_write p = False"

fun holds_read :: "('k, 'v) pc \<Rightarrow> bool" where
  "holds_read (Locked op) = (\<not> writes op)"
| "holds_read (Collecting ks) = True"
| "holds_read (Finished op r) = (\<not> writes op)"
| "holds_read p = False"

definition lock_ok :: "('t, 'k, 'v) shared_map \<Rightarrow> bool" where
  "lock_ok s \<longleftrightarrow>
     (\<forall>t. writer s = Some t \<longleftrightarrow> holds_write (pcs s t)) \<and>
     (\<forall>t. t \<in> readers s \<longleftrightarrow> holds_read (pcs s t)) \<and>
     (writer s \<noteq> None \<longrightarrow> readers s = {})"

lemma lock_ok_contents [simp]: "lock_ok (s\<lparr>contents := c\<rparr>) = lock_ok s"
  by (simp add: lock_ok_def)

text \<open>A step within a method, which neither takes nor releases the lock.\<close>

lemma lock_ok_goto:
  "lock_ok s \<Longrightarrow> holds_write p = holds_write (pcs s t) \<Longrightarrow> holds_read p = holds_read (pcs s t) \<Longrightarrow>
    lock_ok (goto t p s)"
  by (auto simp: lock_ok_def)

lemma lock_ok_no_writer: "lock_ok s \<Longrightarrow> writer s = None \<Longrightarrow> \<not> holds_write (pcs s t)"
  by (auto simp: lock_ok_def)

lemma lock_ok_step:
  assumes "lock_ok s" and "map_step s e s'"
  shows "lock_ok s'"
  using assms(2)
proof cases
  case (lock t op)
  then show ?thesis
    using assms(1) lock_ok_no_writer [OF assms(1)]
    by (auto simp: lock_ok_def)
next
  case (rlock t op)
  then show ?thesis
    using assms(1) by (auto simp: lock_ok_def)
next
  case (return t op r)
  have w: "writer s = Some u \<longleftrightarrow> holds_write (pcs s u)"
    and r: "u \<in> readers s \<longleftrightarrow> holds_read (pcs s u)" for u
    using assms(1) by (simp_all add: lock_ok_def)
  have excl: "writer s \<noteq> None \<longrightarrow> readers s = {}"
    using assms(1) by (simp add: lock_ok_def)
  show ?thesis
  proof (cases "writes op")
    case True
    then have wt: "writer s = Some t" using w [of t] return by simp
    then have "readers s = {}" using excl by simp
    moreover have "\<not> holds_write (pcs s u)" if "u \<noteq> t" for u
      using w [of u] wt that by simp
    ultimately show ?thesis
      using True return r by (simp add: lock_ok_def unlock_def)
  next
    case False
    then have "t \<in> readers s" using r [of t] return by simp
    then have "writer s = None" using excl by auto
    then show ?thesis
      using False return r w by (simp add: lock_ok_def unlock_def)
  qed
qed (use assms(1) in \<open>simp_all add: lock_ok_goto\<close>)

interpretation lock: state_invariant map_step lock_ok
  by unfold_locales (rule lock_ok_step)

lemma lock_ok_fresh [simp]: "lock_ok fresh_map"
  by (simp add: lock_ok_def fresh_map_def)

text \<open>A thread that holds the write lock excludes every other holder.\<close>

lemma lock_exclusive:
  assumes "lock_ok s" and "holds_write (pcs s t)"
    and "holds_write (pcs s u) \<or> holds_read (pcs s u)"
  shows "u = t"
proof -
  have w: "writer s = Some u \<longleftrightarrow> holds_write (pcs s u)"
    and r: "u \<in> readers s \<longleftrightarrow> holds_read (pcs s u)" for u
    using assms(1) by (simp_all add: lock_ok_def)
  have t: "writer s = Some t" using w assms(2) by simp
  then have "readers s = {}" using assms(1) by (simp add: lock_ok_def)
  then show ?thesis using assms(3) w [of u] r [of u] t by auto
qed

section \<open>Linearizability\<close>

text \<open>The sequential meaning of an operation: the map after it, and the results it may give.\<close>

fun seq_after :: "('k, 'v) map_op \<Rightarrow> ('k, 'v) safe_map \<Rightarrow> ('k, 'v) safe_map" where
  "seq_after (SetOp k v) m = Map_Set k v m"
| "seq_after (SetIfNotExistsOp k v) m = snd (Map_SetIfNotExists k v m)"
| "seq_after (DeleteOp k) m = Map_Delete k m"
| "seq_after op m = m"

fun seq_result :: "('k, 'v) map_op \<Rightarrow> ('k, 'v) safe_map \<Rightarrow> ('k, 'v) map_res \<Rightarrow> bool" where
  "seq_result (SetOp k v) m r \<longleftrightarrow> r = Unit"
| "seq_result (SetIfNotExistsOp k v) m r \<longleftrightarrow> r = Flag (fst (Map_SetIfNotExists k v m))"
| "seq_result (GetOp k) m r \<longleftrightarrow> r = Found (Map_Get m k)"
| "seq_result (HasOp k) m r \<longleftrightarrow> r = Flag (Map_Has m k)"
| "seq_result (DeleteOp k) m r \<longleftrightarrow> r = Unit"
| "seq_result KeysOp m r \<longleftrightarrow> (case r of KeyList ks \<Rightarrow> Map_Keys m ks | _ \<Rightarrow> False)"

text \<open>A sequential run; \<open>None\<close> when a recorded result is not one the operation may give.\<close>

fun seq_run :: "(('k, 'v) map_op \<times> ('k, 'v) map_res) list \<Rightarrow> ('k, 'v) safe_map option \<Rightarrow>
    ('k, 'v) safe_map option" where
  "seq_run [] m = m"
| "seq_run ((op, r) # log) m =
     seq_run log (Option.bind m (\<lambda>m. if seq_result op m r then Some (seq_after op m) else None))"

fun effects :: "('t, 'k, 'v) map_event list \<Rightarrow> (('k, 'v) map_op \<times> ('k, 'v) map_res) list" where
  "effects [] = []"
| "effects (Effect t op r # tr) = (op, r) # effects tr"
| "effects (e # tr) = effects tr"

text \<open>The order of one thread's events: call, effect, return, again and again.\<close>

datatype ('k, 'v) phase =
    Resting
  | Pending "('k, 'v) map_op"
  | Settled "('k, 'v) map_op" "('k, 'v) map_res"

fun phase_after ::
  "'t \<Rightarrow> ('k, 'v) phase option \<Rightarrow> ('t, 'k, 'v) map_event \<Rightarrow> ('k, 'v) phase option" where
  "phase_after t p (Call u op) =
     (if u \<noteq> t then p else if p = Some Resting then Some (Pending op) else None)"
| "phase_after t p (Internal u) = p"
| "phase_after t p (Effect u op r) =
     (if u \<noteq> t then p else if p = Some (Pending op) then Some (Settled op r) else None)"
| "phase_after t p (Return u r) =
     (if u \<noteq> t then p
      else case p of Some (Settled op r') \<Rightarrow> if r' = r then Some Resting else None | _ \<Rightarrow> None)"

definition phase_of :: "'t \<Rightarrow> ('t, 'k, 'v) map_event list \<Rightarrow> ('k, 'v) phase option" where
  "phase_of t tr = foldl (phase_after t) (Some Resting) tr"

fun pc_phase :: "('k, 'v) pc \<Rightarrow> ('k, 'v) phase" where
  "pc_phase Idle = Resting"
| "pc_phase (Waiting op) = Pending op"
| "pc_phase (Locked op) = Pending op"
| "pc_phase (Checked k v e) = Pending (SetIfNotExistsOp k v)"
| "pc_phase (Collecting ks) = Pending KeysOp"
| "pc_phase (Finished op r) = Settled op r"

text \<open>What a thread has read under the lock is still so.\<close>

fun pc_data_ok :: "('k, 'v) gomap \<Rightarrow> ('k, 'v) pc \<Rightarrow> bool" where
  "pc_data_ok m (Checked k v e) \<longleftrightarrow> e = (gm_get m k \<noteq> None)"
| "pc_data_ok m (Collecting ks) \<longleftrightarrow> distinct ks \<and> (\<forall>k \<in> set ks. gm_get m k \<noteq> None)"
| "pc_data_ok m p \<longleftrightarrow> True"

definition data_ok :: "('t, 'k, 'v) shared_map \<Rightarrow> bool" where
  "data_ok s \<longleftrightarrow> gm_ok (contents s) \<and> (\<forall>t. pc_data_ok (contents s) (pcs s t))"

definition explained :: "('t, 'k, 'v) map_event list \<Rightarrow> ('t, 'k, 'v) shared_map \<Rightarrow> bool" where
  "explained tr s \<longleftrightarrow>
     lock_ok s \<and> data_ok s \<and>
     seq_run (effects tr) (Some NewMap) = Some \<lparr>entries = contents s\<rparr> \<and>
     (\<forall>t. phase_of t tr = Some (pc_phase (pcs s t)))"

lemma seq_run_append: "seq_run (xs @ ys) m = seq_run ys (seq_run xs m)"
  by (induction xs arbitrary: m) auto

lemma effects_append: "effects (xs @ ys) = effects xs @ effects ys"
  by (induction xs rule: effects.induct) auto

lemma pc_data_ok_unlocked: "\<not> holds_write p \<Longrightarrow> \<not> holds_read p \<Longrightarrow> pc_data_ok m p"
  by (cases p) auto

text \<open>A write by the holder of the write lock leaves the others' readings intact.\<close>

lemma data_ok_write:
  assumes "lock_ok s" and "data_ok s" and "holds_write (pcs s t)"
    and "gm_ok m" and "pc_data_ok m p"
  shows "data_ok (goto t p (s\<lparr>contents := m\<rparr>))"
proof -
  have "pc_data_ok m (pcs s u)" if "u \<noteq> t" for u
    using lock_exclusive [OF assms(1,3), of u] that by (auto intro: pc_data_ok_unlocked)
  then show ?thesis using assms(4,5) by (simp add: data_ok_def)
qed

lemma data_ok_goto: "data_ok s \<Longrightarrow> pc_data_ok (contents s) p \<Longrightarrow> data_ok (goto t p s)"
  by (simp add: data_ok_def)

lemma data_ok_lock [simp]:
  "data_ok (s\<lparr>writer := w\<rparr>) = data_ok s"
  "data_ok (s\<lparr>readers := r\<rparr>) = data_ok s"
  "data_ok (unlock t op s) = data_ok s"
  by (simp_all add: data_ok_def)

lemma data_ok_contents: "data_ok s \<Longrightarrow> gm_ok (contents s)"
  by (simp add: data_ok_def)

lemma data_ok_step:
  assumes "lock_ok s" and "data_ok s" and "map_step s e s'"
  shows "data_ok s'"
  using assms(3)
proof cases
  case (keys_next t ks k)
  have "pc_data_ok (contents s) (Collecting ks)"
    using assms(2) keys_next(3) by (metis data_ok_def)
  then show ?thesis
    using assms(2) keys_next by (simp add: data_ok_goto)
qed (use assms(1,2) in \<open>simp_all add: data_ok_goto data_ok_write data_ok_contents\<close>)

text \<open>The result of an effect is one the sequential operation may give.\<close>

lemma effect_legal:
  assumes "data_ok s" and "map_step s (Effect t op r) s'"
  shows "seq_result op \<lparr>entries = contents s\<rparr> r \<and>
    seq_after op \<lparr>entries = contents s\<rparr> = \<lparr>entries = contents s'\<rparr>"
proof -
  have pc: "pc_data_ok (contents s) (pcs s t)"
    using assms(1) by (simp add: data_ok_def)
  from assms(2) show ?thesis
  proof cases
    case (keys_end ks)
    have "fst ` set (contents s) \<subseteq> set ks"
      using keys_end by auto
    moreover have "distinct ks" and "set ks \<subseteq> fst ` set (contents s)"
      using pc keys_end by (auto simp: gm_get_eq_None)
    moreover have "distinct (map fst (contents s))"
      using assms(1) by (simp add: data_ok_def gm_ok_def)
    ultimately have "mset ks = mset (map fst (contents s))"
      by (metis list.set_map set_eq_iff_mset_eq_distinct subset_antisym)
    with keys_end show ?thesis by (simp add: safe_map_defs gm_range_def)
  qed (use pc in \<open>auto simp: safe_map_defs\<close>)
qed

lemma not_effect_contents:
  assumes "map_step s e s'" and "effects [e] = []"
  shows "contents s' = contents s"
  using assms by cases auto

lemma phase_step:
  assumes "map_step s e s'" and "\<forall>t. phase_of t tr = Some (pc_phase (pcs s t))"
  shows "phase_of u (tr @ [e]) = Some (pc_phase (pcs s' u))"
proof -
  have "phase_of u (tr @ [e]) = phase_after u (Some (pc_phase (pcs s u))) e"
    using assms(2) by (simp add: phase_of_def)
  also have "\<dots> = Some (pc_phase (pcs s' u))"
    using assms(1) by cases auto
  finally show ?thesis .
qed

lemma explained_step:
  assumes "explained tr s" and step: "map_step s e s'"
  shows "explained (tr @ [e]) s'"
proof -
  have inv: "lock_ok s" "data_ok s"
      "seq_run (effects tr) (Some NewMap) = Some \<lparr>entries = contents s\<rparr>"
    using assms(1) by (simp_all add: explained_def)
  have "seq_run (effects (tr @ [e])) (Some NewMap) = Some \<lparr>entries = contents s'\<rparr>"
  proof (cases "effects [e] = []")
    case True
    then show ?thesis
      using inv not_effect_contents [OF step] by (simp add: effects_append)
  next
    case False
    then obtain t op r where e: "e = Effect t op r" by (cases e) auto
    show ?thesis
      using inv effect_legal [OF inv(2) step [unfolded e]]
      by (simp add: e effects_append seq_run_append)
  qed
  then show ?thesis
    using lock_ok_step [OF inv(1) step] data_ok_step [OF inv(1,2) step]
      phase_step [OF step] assms(1)
    by (simp add: explained_def)
qed

interpretation log: history_invariant map_step explained
  by unfold_locales (rule explained_step)

lemma explained_fresh: "explained [] fresh_map"
  by (simp add: explained_def data_ok_def phase_of_def) (simp add: fresh_map_def NewMap_def)

inductive_simps map_step_Call: "map_step s (Call t op) s'"
inductive_simps map_step_Internal: "map_step s (Internal t) s'"
inductive_simps map_step_Effect: "map_step s (Effect t op r) s'"
inductive_simps map_step_Return: "map_step s (Return t r) s'"

lemmas map_step_simps =
  map_step_Call map_step_Internal map_step_Effect map_step_Return

lemma run_explained: "run map_step fresh_map tr s \<Longrightarrow> explained tr s"
  by (rule log.history_from_start [OF _ explained_fresh])

text \<open>A key that is present stays present until it is deleted.\<close>

lemma seq_run_None [simp]: "seq_run log None = None"
  by (induction log) auto

lemma seq_run_keeps:
  assumes "seq_run log (Some m) = Some m'" and "Map_Has m k" and "DeleteOp k \<notin> fst ` set log"
  shows "Map_Has m' k"
  using assms
proof (induction log arbitrary: m)
  case (Cons e log)
  obtain op r where e: "e = (op, r)" by (cases e)
  have ok: "seq_result op m r" and rest: "seq_run log (Some (seq_after op m)) = Some m'"
    using Cons.prems(1) e by (auto split: if_splits)
  have "Map_Has (seq_after op m) k"
    using Cons.prems(2,3) e by (cases op) (auto simp: safe_map_defs gm_get_set gm_get_delete)
  then show ?case using Cons.IH [OF rest] Cons.prems(3) by simp
qed simp

text \<open>Some thread in a method can take a step. A holder of the lock always can.\<close>

definition can_move :: "('t, 'k, 'v) shared_map \<Rightarrow> bool" where
  "can_move s \<longleftrightarrow>
     (\<exists>t s'. map_step s (Internal t) s' \<or> (\<exists>op r. map_step s (Effect t op r) s') \<or>
       (\<exists>r. map_step s (Return t r) s'))"

lemma can_move_intros:
  "map_step s (Internal t) s' \<Longrightarrow> can_move s"
  "map_step s (Effect t op r) s' \<Longrightarrow> can_move s"
  "map_step s (Return t r) s' \<Longrightarrow> can_move s"
  unfolding can_move_def by blast+

lemma body_moves: "pcs s t = Locked op \<Longrightarrow> can_move s"
  by (cases op)
    (auto intro: can_move_intros set_body setnx_test get_body has_body delete_body keys_start)

lemma checked_moves: "pcs s t = Checked k v e \<Longrightarrow> can_move s"
  by (cases e) (auto intro: can_move_intros setnx_keep setnx_write)

lemma collecting_moves:
  assumes "pcs s t = Collecting ks"
  shows "can_move s"
proof (cases "\<forall>(k, v) \<in> set (contents s). k \<in> set ks")
  case True
  then show ?thesis using assms by (auto intro: can_move_intros keys_end)
next
  case False
  then obtain k where "gm_get (contents s) k \<noteq> None" "k \<notin> set ks"
    by (force simp: gm_get_eq_None image_iff)
  then show ?thesis using assms by (auto intro: can_move_intros keys_next)
qed

lemma holder_moves: "holds_write (pcs s t) \<or> holds_read (pcs s t) \<Longrightarrow> can_move s"
  by (cases "pcs s t")
    (auto intro: body_moves checked_moves collecting_moves can_move_intros map_step.return)

lemma lock_free_iff:
  assumes "lock_ok s" and "\<nexists>t. holds_write (pcs s t) \<or> holds_read (pcs s t)"
  shows "writer s = None \<and> readers s = {}"
  using assms unfolding lock_ok_def by (metis equals0I not_None_eq)

section \<open>Properties\<close>

text \<open>
  C2. The concurrent map is linearizable: in every run of any number of threads, the effects
  in the order in which they happen are a legal sequential run of the operations that ends
  in the map's contents, and each thread's events are calls, each followed by its one effect
  and then by a return of that effect's result.
\<close>

theorem Map_linearizable:
  assumes "run map_step fresh_map tr s"
  shows "seq_run (effects tr) (Some NewMap) = Some \<lparr>entries = contents s\<rparr> \<and>
    phase_of t tr = Some (pc_phase (pcs s t))"
  using run_explained [OF assms] by (simp add: explained_def)

text \<open>Two threads race to set a key; the second asks for the keys.\<close>

definition race :: "(nat, nat, nat) map_event list" where
  "race =
     [Call 0 (SetIfNotExistsOp 7 1), Call 1 (SetIfNotExistsOp 7 2),
      Internal 1, Internal 1, Effect 1 (SetIfNotExistsOp 7 2) (Flag True), Return 1 (Flag True),
      Internal 0, Internal 0, Effect 0 (SetIfNotExistsOp 7 1) (Flag False),
      Return 0 (Flag False)]"

definition race_end :: "(nat, nat, nat) shared_map" where
  "race_end = fresh_map\<lparr>contents := [(7, 2)]\<rparr>"

lemma race_run: "run map_step fresh_map race race_end"
  unfolding race_def race_end_def
  apply (simp add: run_Cons_iff map_step_Call fresh_map_def goto_def)
  apply (simp add: map_step_Internal goto_def)
  apply (simp add: map_step_Effect goto_def gm_set_def)
  apply (simp add: map_step_Return unlock_def goto_def gm_set_def)
  apply (simp add: fun_eq_iff)
  done

theorem Map_linearizable_witness:
  "seq_run (effects race) (Some NewMap) = Some \<lparr>entries = contents race_end\<rparr> \<and>
   phase_of 0 race = Some (pc_phase (pcs race_end 0))"
  by (rule Map_linearizable [OF race_run])

text \<open>
  Mutual exclusion: while a thread is in a method that writes, between its lock and its
  deferred unlock, no other thread is inside any method.
\<close>

theorem Map_mutual_exclusion:
  assumes "run map_step fresh_map tr s"
    and "holds_write (pcs s t)" and "holds_write (pcs s u) \<or> holds_read (pcs s u)"
  shows "u = t"
  by (rule lock_exclusive [OF _ assms(2,3)])
    (use run_explained [OF assms(1)] in \<open>simp add: explained_def\<close>)

theorem Map_mutual_exclusion_witness:
  "\<exists>s :: (nat, nat, nat) shared_map.
     run map_step fresh_map [Call 0 (SetOp 7 1), Internal 0] s \<and> holds_write (pcs s 0) \<and>
     {u. holds_write (pcs s u) \<or> holds_read (pcs s u)} = {0}"
proof -
  have "\<exists>s :: (nat, nat, nat) shared_map.
      run map_step fresh_map [Call 0 (SetOp 7 1), Internal 0] s \<and> holds_write (pcs s 0)"
    apply (simp add: run_Cons_iff map_step_Call fresh_map_def goto_def)
    apply (simp add: map_step_Internal goto_def)
    done
  then obtain s :: "(nat, nat, nat) shared_map"
    where s: "run map_step fresh_map [Call 0 (SetOp 7 1), Internal 0] s" "holds_write (pcs s 0)"
    by blast
  moreover have "{u. holds_write (pcs s u) \<or> holds_read (pcs s u)} = {0}"
    by (rule set_eqI) (use Map_mutual_exclusion [OF s] s(2) in \<open>simp, metis\<close>)
  ultimately show ?thesis by (intro exI [of _ s] conjI)
qed

text \<open>
  C18. \<open>SetIfNotExists\<close> has one winner: when two of its calls on a key both return true, a
  \<open>Delete\<close> of that key took effect between them, whatever the threads did.
\<close>

theorem Map_SetIfNotExists_one_winner:
  assumes "run map_step fresh_map tr s"
    and "effects tr = before @ (SetIfNotExistsOp k v, Flag True) # between @
           (SetIfNotExistsOp k w, Flag True) # after"
  shows "DeleteOp k \<in> fst ` set between"
proof (rule ccontr)
  assume no_delete: "DeleteOp k \<notin> fst ` set between"
  have "seq_run (effects tr) (Some NewMap) \<noteq> None"
    using run_explained [OF assms(1)] by (simp add: explained_def)
  then obtain m where m: "seq_run before (Some NewMap) = Some m"
    and rest: "seq_run ((SetIfNotExistsOp k v, Flag True) # between @
        (SetIfNotExistsOp k w, Flag True) # after) (Some m) \<noteq> None"
    by (cases "seq_run before (Some NewMap)") (simp_all add: assms(2) seq_run_append)
  have fresh: "\<not> Map_Has m k"
    using rest by (auto simp: Map_SetIfNotExists_cases)
  obtain m' where m': "seq_run between (Some (Map_Set k v m)) = Some m'"
    using rest fresh
    by (cases "seq_run between (Some (Map_Set k v m))")
      (auto simp: seq_run_append Map_SetIfNotExists_cases)
  have "\<not> Map_Has m' k"
    using rest m' fresh by (auto simp: seq_run_append Map_SetIfNotExists_cases safe_map_defs split: if_splits)
  then show False
    using seq_run_keeps [OF m' _ no_delete] by (simp add: safe_map_defs)
qed

definition two_wins :: "(nat, nat, nat) map_event list" where
  "two_wins =
     [Call 0 (SetIfNotExistsOp 7 1), Internal 0, Internal 0,
      Effect 0 (SetIfNotExistsOp 7 1) (Flag True), Return 0 (Flag True),
      Call 1 (DeleteOp 7), Internal 1, Effect 1 (DeleteOp 7) Unit, Return 1 Unit,
      Call 1 (SetIfNotExistsOp 7 2), Internal 1, Internal 1,
      Effect 1 (SetIfNotExistsOp 7 2) (Flag True), Return 1 (Flag True)]"

lemma two_wins_run: "run map_step fresh_map two_wins race_end"
  unfolding two_wins_def race_end_def
  apply (simp add: run_Cons_iff map_step_Call fresh_map_def goto_def)
  apply (simp add: map_step_Internal goto_def)
  apply (simp add: map_step_Effect goto_def gm_set_def)
  apply (simp add: map_step_Return unlock_def goto_def gm_set_def gm_delete_def)
  apply (simp add: fun_eq_iff)
  done

theorem Map_SetIfNotExists_one_winner_witness:
  "DeleteOp 7 \<in> fst ` set [(DeleteOp (7 :: nat) :: (nat, nat) map_op, Unit :: (nat, nat) map_res)]"
  by (rule Map_SetIfNotExists_one_winner [OF two_wins_run, of "[]" 7 1 _ 2 "[]"])
    (simp add: two_wins_def)

text \<open>
  C39. No deadlock: as long as some thread is inside a method or waits to enter one, some
  thread can take a step other than starting a new call.
\<close>

theorem Map_deadlock_free:
  assumes "run map_step fresh_map tr s" and "pcs s t \<noteq> Idle"
  shows "can_move s"
proof (cases "\<exists>u. holds_write (pcs s u) \<or> holds_read (pcs s u)")
  case True
  then obtain u where "holds_write (pcs s u) \<or> holds_read (pcs s u)" ..
  then show ?thesis by (rule holder_moves)
next
  case False
  then have free: "writer s = None" "readers s = {}"
    using lock_free_iff [of s] run_explained [OF assms(1)] by (simp_all add: explained_def)
  have "\<exists>op. pcs s t = Waiting op"
    using False assms(2) by (cases "pcs s t") (metis holds_read.simps holds_write.simps)+
  then obtain op where "pcs s t = Waiting op" ..
  then show ?thesis
    using free by (cases "writes op") (auto intro: can_move_intros map_step.lock rlock)
qed

theorem Map_deadlock_free_witness:
  "\<exists>s :: (nat, nat, nat) shared_map.
     run map_step fresh_map [Call 0 (SetOp 7 1), Internal 0] s \<and> can_move s"
proof -
  have "\<exists>s :: (nat, nat, nat) shared_map.
      run map_step fresh_map [Call 0 (SetOp 7 1), Internal 0] s \<and> pcs s 0 \<noteq> Idle"
    apply (simp add: run_Cons_iff map_step_Call fresh_map_def goto_def)
    apply (simp add: map_step_Internal goto_def)
    done
  then obtain s :: "(nat, nat, nat) shared_map"
    where s: "run map_step fresh_map [Call 0 (SetOp 7 1), Internal 0] s" "pcs s 0 \<noteq> Idle"
    by (elim exE conjE)
  show ?thesis
    by (intro exI [of _ s] conjI) (rule s(1), rule Map_deadlock_free [OF s])
qed

end
