(* ===== verification/Safe_Channel.thy ===== *)
theory Safe_Channel
  imports Quiver_Prelude
begin

text \<open>
  \<open>safe/channel.go\<close>: the unlimited channel, as the steps of its manager goroutine. The two
  unbuffered channels are rendezvous, so a send on \<open>In()\<close> and a receive from \<open>Out()\<close> are
  events of the manager; everything else the manager does is an internal event. The theory
  shows that nothing is lost, duplicated or reordered, what \<open>Finalize\<close> returns, that the
  manager does not crash while \<open>In()\<close> stays open, and that it always crashes when \<open>In()\<close> is
  closed without \<open>Finalize\<close>.
\<close>

section \<open>The manager\<close>

text \<open>
  Where the manager is: at the head of its loop, in the first \<open>select\<close>, about to evaluate the
  cases of the second \<open>select\<close> (which reads \<open>storage[0]\<close>), in it, in a \<open>ctx.Done\<close> branch
  before \<open>close(c.out)\<close>, before \<open>close(finalized)\<close>, in the last loop, or dead of a panic.
\<close>

datatype manager = Top | WaitIn | Enter | Serve | Stopping | Stopped | Drain | Crashed go_panic

record 'a unlimited_channel =
  mgr :: manager
  storage :: "'a list"
  in_closed :: bool
  out_closed :: bool
  cancelled :: bool
  finalized :: bool

datatype 'a chan_event =
    Send 'a
  | Recv 'a
  | RecvClosed
  | CloseIn
  | Cancel
  | Final "'a list"
  | Finalized
  | Tau

definition NewUnlimitedChannel :: "'a unlimited_channel" where
  "NewUnlimitedChannel =
     \<lparr>mgr = Top, storage = [], in_closed = False, out_closed = False, cancelled = False,
      finalized = False\<rparr>"

text \<open>\<open>close(c.out)\<close>, and where the manager goes on when it does not panic.\<close>

definition close_out :: "manager \<Rightarrow> 'a unlimited_channel \<Rightarrow> 'a unlimited_channel" where
  "close_out next c =
     (if out_closed c then c\<lparr>mgr := Crashed CloseOfClosedChannel\<rparr>
      else c\<lparr>out_closed := True, mgr := next\<rparr>)"

text \<open>The local function \<open>takeIn\<close>; \<open>None\<close> is the receive from a closed channel.\<close>

fun takeIn :: "'a option \<Rightarrow> manager \<Rightarrow> 'a unlimited_channel \<Rightarrow> 'a unlimited_channel" where
  "takeIn None next c = close_out next c"
| "takeIn (Some t) next c = c\<lparr>storage := storage c @ [t], mgr := next\<rparr>"

inductive uchan_step ::
  "'a unlimited_channel \<Rightarrow> 'a chan_event \<Rightarrow> 'a unlimited_channel \<Rightarrow> bool" where
  top_empty: "mgr c = Top \<Longrightarrow> storage c = [] \<Longrightarrow> uchan_step c Tau (c\<lparr>mgr := WaitIn\<rparr>)"
| top_full: "mgr c = Top \<Longrightarrow> storage c \<noteq> [] \<Longrightarrow> uchan_step c Tau (c\<lparr>mgr := Enter\<rparr>)"
| wait_in: "mgr c = WaitIn \<Longrightarrow> \<not> in_closed c \<Longrightarrow> uchan_step c (Send t) (takeIn (Some t) Enter c)"
| wait_closed: "mgr c = WaitIn \<Longrightarrow> in_closed c \<Longrightarrow> uchan_step c Tau (takeIn None Enter c)"
| wait_done: "mgr c = WaitIn \<Longrightarrow> cancelled c \<Longrightarrow> uchan_step c Tau (c\<lparr>mgr := Stopping\<rparr>)"
| enter_empty: "mgr c = Enter \<Longrightarrow> storage c = [] \<Longrightarrow>
    uchan_step c Tau (c\<lparr>mgr := Crashed IndexOutOfRange\<rparr>)"
| enter_full: "mgr c = Enter \<Longrightarrow> storage c \<noteq> [] \<Longrightarrow> uchan_step c Tau (c\<lparr>mgr := Serve\<rparr>)"
| serve_in: "mgr c = Serve \<Longrightarrow> \<not> in_closed c \<Longrightarrow> uchan_step c (Send t) (takeIn (Some t) Top c)"
| serve_closed: "mgr c = Serve \<Longrightarrow> in_closed c \<Longrightarrow> uchan_step c Tau (takeIn None Top c)"
| serve_out: "mgr c = Serve \<Longrightarrow> \<not> out_closed c \<Longrightarrow> storage c = x # xs \<Longrightarrow>
    uchan_step c (Recv x) (c\<lparr>storage := xs, mgr := Top\<rparr>)"
| serve_out_closed: "mgr c = Serve \<Longrightarrow> out_closed c \<Longrightarrow>
    uchan_step c Tau (c\<lparr>mgr := Crashed SendOnClosedChannel\<rparr>)"
| serve_done: "mgr c = Serve \<Longrightarrow> cancelled c \<Longrightarrow> uchan_step c Tau (c\<lparr>mgr := Stopping\<rparr>)"
| stop: "mgr c = Stopping \<Longrightarrow> uchan_step c Tau (close_out Stopped c)"
| finish: "mgr c = Stopped \<Longrightarrow> uchan_step c Finalized (c\<lparr>finalized := True, mgr := Drain\<rparr>)"
| drain_in: "mgr c = Drain \<Longrightarrow> \<not> in_closed c \<Longrightarrow> uchan_step c (Send t) c"
| drain_closed: "mgr c = Drain \<Longrightarrow> in_closed c \<Longrightarrow> uchan_step c Tau c"
| out_done: "out_closed c \<Longrightarrow> \<forall>p. mgr c \<noteq> Crashed p \<Longrightarrow> uchan_step c RecvClosed c"
| close_in: "\<not> in_closed c \<Longrightarrow> \<forall>p. mgr c \<noteq> Crashed p \<Longrightarrow>
    uchan_step c CloseIn (c\<lparr>in_closed := True\<rparr>)"
| finalize_cancel: "\<forall>p. mgr c \<noteq> Crashed p \<Longrightarrow> uchan_step c Cancel (c\<lparr>cancelled := True\<rparr>)"
| finalize_return: "cancelled c \<Longrightarrow> finalized c \<Longrightarrow> \<forall>p. mgr c \<noteq> Crashed p \<Longrightarrow>
    uchan_step c (Final (storage c)) c"

inductive_simps uchan_Send: "uchan_step c (Send t) c'"
inductive_simps uchan_Recv: "uchan_step c (Recv t) c'"
inductive_simps uchan_Final: "uchan_step c (Final xs) c'"
inductive_simps uchan_Finalized: "uchan_step c Finalized c'"
inductive_simps uchan_CloseIn: "uchan_step c CloseIn c'"
inductive_simps uchan_Cancel: "uchan_step c Cancel c'"
inductive_simps uchan_RecvClosed: "uchan_step c RecvClosed c'"
inductive_simps uchan_Tau: "uchan_step c Tau c'"

lemmas uchan_simps =
  uchan_Send uchan_Recv uchan_Final uchan_Finalized uchan_CloseIn uchan_Cancel uchan_RecvClosed
  uchan_Tau

section \<open>What went in and what came out\<close>

fun sent :: "'a chan_event list \<Rightarrow> 'a list" where
  "sent [] = []"
| "sent (Send x # tr) = x # sent tr"
| "sent (e # tr) = sent tr"

fun received :: "'a chan_event list \<Rightarrow> 'a list" where
  "received [] = []"
| "received (Recv x # tr) = x # received tr"
| "received (e # tr) = received tr"

text \<open>What was sent before the manager announced that it is finalized.\<close>

fun accepted :: "'a chan_event list \<Rightarrow> 'a list" where
  "accepted [] = []"
| "accepted (Send x # tr) = x # accepted tr"
| "accepted (Finalized # tr) = []"
| "accepted (e # tr) = accepted tr"

lemma received_append [simp]: "received (xs @ ys) = received xs @ received ys"
  by (induction xs rule: received.induct) auto

lemma sent_append [simp]: "sent (xs @ ys) = sent xs @ sent ys"
  by (induction xs rule: sent.induct) auto

lemma accepted_append:
  "accepted (xs @ ys) = accepted xs @ (if Finalized \<in> set xs then [] else accepted ys)"
  by (induction xs rule: accepted.induct) auto

lemma accepted_prefix: "\<exists>late. sent tr = accepted tr @ late"
  by (induction tr rule: accepted.induct) auto

text \<open>The control invariant of the manager, as long as nobody closes \<open>In()\<close>.\<close>

fun storage_ok :: "manager \<Rightarrow> 'a list \<Rightarrow> bool" where
  "storage_ok WaitIn xs \<longleftrightarrow> xs = []"
| "storage_ok Enter xs \<longleftrightarrow> xs \<noteq> []"
| "storage_ok Serve xs \<longleftrightarrow> xs \<noteq> []"
| "storage_ok (Crashed p) xs \<longleftrightarrow> False"
| "storage_ok _ xs \<longleftrightarrow> True"

definition chan_ok :: "'a unlimited_channel \<Rightarrow> bool" where
  "chan_ok c \<longleftrightarrow>
     storage_ok (mgr c) (storage c) \<and> \<not> in_closed c \<and>
     (out_closed c \<longleftrightarrow> mgr c \<in> {Stopped, Drain}) \<and>
     (mgr c \<in> {Stopping, Stopped, Drain} \<longrightarrow> cancelled c)"

definition accounted :: "'a chan_event list \<Rightarrow> 'a unlimited_channel \<Rightarrow> bool" where
  "accounted tr c \<longleftrightarrow>
     accepted tr = received tr @ storage c \<and>
     (Finalized \<in> set tr \<longleftrightarrow> finalized c) \<and> (finalized c \<longleftrightarrow> mgr c = Drain) \<and>
     (mgr c \<in> {Stopping, Stopped, Drain} \<longrightarrow> cancelled c) \<and>
     (CloseIn \<in> set tr \<longleftrightarrow> in_closed c) \<and> (Cancel \<in> set tr \<longleftrightarrow> cancelled c)"

lemma chan_ok_step: "chan_ok c \<Longrightarrow> uchan_step c e c' \<Longrightarrow> e \<noteq> CloseIn \<Longrightarrow> chan_ok c'"
  by (erule uchan_step.cases) (auto simp: chan_ok_def close_out_def)

lemma accounted_step: "accounted tr c \<Longrightarrow> uchan_step c e c' \<Longrightarrow> accounted (tr @ [e]) c'"
  by (erule uchan_step.cases) (auto simp: accounted_def accepted_append close_out_def)

interpretation account: history_invariant uchan_step accounted
  by unfold_locales (rule accounted_step)

lemma accounted_new: "accounted [] NewUnlimitedChannel"
  by (simp add: accounted_def NewUnlimitedChannel_def)

lemma run_accounted: "run uchan_step NewUnlimitedChannel tr c \<Longrightarrow> accounted tr c"
  by (rule account.history_from_start [OF _ accounted_new])

lemma chan_ok_new: "chan_ok NewUnlimitedChannel"
  by (simp add: chan_ok_def NewUnlimitedChannel_def)

lemma run_chan_ok:
  "run uchan_step c tr c' \<Longrightarrow> chan_ok c \<Longrightarrow> CloseIn \<notin> set tr \<Longrightarrow> chan_ok c'"
  by (induction rule: run.induct) (auto intro: chan_ok_step)

section \<open>The channel as a queue\<close>

text \<open>
  What a client relies on: the values that went in are the values that came out and the values
  still held, in this order.
\<close>

locale fifo =
  fixes step :: "'s \<Rightarrow> 'e \<Rightarrow> 's \<Rightarrow> bool"
    and start :: 's
    and puts :: "'e list \<Rightarrow> 'a list"
    and gets :: "'e list \<Rightarrow> 'a list"
    and held :: "'s \<Rightarrow> 'a list"
  assumes accounts: "run step start tr s \<Longrightarrow> puts tr = gets tr @ held s"
begin

lemma gets_in_order: "run step start tr s \<Longrightarrow> gets tr = take (length (gets tr)) (puts tr)"
  by (simp add: accounts)

lemma held_rest: "run step start tr s \<Longrightarrow> held s = drop (length (gets tr)) (puts tr)"
  by (simp add: accounts)

lemma nothing_twice:
  "run step start tr s \<Longrightarrow> distinct (puts tr) \<Longrightarrow>
    distinct (gets tr) \<and> set (gets tr) \<inter> set (held s) = {}"
  by (simp add: accounts)

end

interpretation uc: fifo uchan_step NewUnlimitedChannel accepted received storage
  by unfold_locales (use run_accounted in \<open>auto simp: accounted_def\<close>)

section \<open>Progress\<close>

text \<open>The manager gets from one state to another by at most \<open>n\<close> internal events.\<close>

definition quietly :: "nat \<Rightarrow> 'a unlimited_channel \<Rightarrow> 'a unlimited_channel \<Rightarrow> bool" where
  "quietly n c c' \<longleftrightarrow>
     (\<exists>es. run uchan_step c es c' \<and> set es \<subseteq> {Tau, Finalized} \<and> length es \<le> n)"

lemma quietly_refl: "quietly n c c"
  unfolding quietly_def by (rule exI [of _ "[]"]) (simp add: run_Nil)

lemma quietly_step:
  assumes "uchan_step c e c1" and "e \<in> {Tau, Finalized}" and "quietly n c1 c'"
  shows "quietly (Suc n) c c'"
proof -
  obtain es where "run uchan_step c1 es c'" "set es \<subseteq> {Tau, Finalized}" "length es \<le> n"
    using assms(3) by (auto simp: quietly_def)
  then show ?thesis
    using assms(1,2) unfolding quietly_def
    by (intro exI [of _ "e # es"]) (auto intro: run_Cons)
qed

lemmas quietly_Tau = quietly_step [where e = Tau, simplified]

lemma send_enabled:
  "mgr c \<in> {WaitIn, Serve, Drain} \<Longrightarrow> \<not> in_closed c \<Longrightarrow> \<exists>c'. uchan_step c (Send x) c'"
  by (auto intro: wait_in serve_in drain_in)

text \<open>The manager can finish within \<open>n\<close> internal events, keeping its storage.\<close>

definition drains :: "nat \<Rightarrow> 'a unlimited_channel \<Rightarrow> bool" where
  "drains n c \<longleftrightarrow>
     (\<exists>c'. quietly n c c' \<and> mgr c' = Drain \<and> finalized c' \<and> cancelled c' \<and>
       storage c' = storage c \<and> in_closed c' = in_closed c)"

lemma drains_Drain: "mgr c = Drain \<Longrightarrow> finalized c \<Longrightarrow> cancelled c \<Longrightarrow> drains n c"
  unfolding drains_def using quietly_refl by blast

lemma drains_step:
  "uchan_step c e c1 \<Longrightarrow> e \<in> {Tau, Finalized} \<Longrightarrow> storage c1 = storage c \<Longrightarrow>
    in_closed c1 = in_closed c \<Longrightarrow> drains n c1 \<Longrightarrow>
    drains (Suc n) c"
  unfolding drains_def by (metis quietly_step)

lemma drains_Stopped: "mgr c = Stopped \<Longrightarrow> cancelled c \<Longrightarrow> drains (Suc n) c"
  by (rule drains_step [OF finish]) (auto intro: drains_Drain)

lemma drains_Stopping: "mgr c = Stopping \<Longrightarrow> \<not> out_closed c \<Longrightarrow> cancelled c \<Longrightarrow>
    drains (Suc (Suc n)) c"
  by (rule drains_step [OF stop]) (auto simp: close_out_def intro: drains_Stopped)

lemma drains_select: "mgr c = WaitIn \<or> mgr c = Serve \<Longrightarrow> \<not> out_closed c \<Longrightarrow> cancelled c \<Longrightarrow>
    drains (Suc (Suc (Suc n))) c"
  by (rule drains_step [where e = Tau and ?c1.0 = "c\<lparr>mgr := Stopping\<rparr>"])
    (auto intro: drains_Stopping wait_done serve_done)

lemma drains_Enter:
  assumes "mgr c = Enter" and "storage c \<noteq> []" and "\<not> out_closed c" and "cancelled c"
  shows "drains (Suc (Suc (Suc (Suc n)))) c"
  by (rule drains_step [OF enter_full [OF assms(1,2)]]) (use assms in \<open>auto intro: drains_select\<close>)

lemma drains_Top:
  assumes "mgr c = Top" and "\<not> out_closed c" and "cancelled c"
  shows "drains (Suc (Suc (Suc (Suc (Suc n))))) c"
proof (cases "storage c = []")
  case True
  show ?thesis
    by (rule drains_step [OF top_empty [OF assms(1) True]])
      (use assms True in \<open>auto intro: drains_select\<close>)
next
  case False
  show ?thesis
    by (rule drains_step [OF top_full [OF assms(1) False]])
      (use assms False in \<open>auto intro: drains_Enter\<close>)
qed

lemma finishes:
  assumes "chan_ok c" and "cancelled c" and "finalized c \<longleftrightarrow> mgr c = Drain"
  shows "drains (Suc (Suc (Suc (Suc (Suc n))))) c"
  using assms
  by (cases "mgr c")
    (auto simp: chan_ok_def
      intro: drains_Top drains_select drains_Enter drains_Stopping drains_Stopped drains_Drain)

lemma accepts_soon:
  assumes "chan_ok c"
  shows "\<exists>c'. quietly 2 c c' \<and> \<not> in_closed c' \<and> mgr c' \<in> {WaitIn, Serve, Drain}"
proof -
  have open_in: "\<not> in_closed c" using assms by (simp add: chan_ok_def)
  have enter: "\<exists>c'. quietly 1 d c' \<and> \<not> in_closed c' \<and> mgr c' \<in> {WaitIn, Serve, Drain}"
    if "mgr d = Enter" "storage d \<noteq> []" "\<not> in_closed d" for d :: "'a unlimited_channel"
    by (rule exI [of _ "d\<lparr>mgr := Serve\<rparr>"])
      (use that quietly_Tau [OF enter_full quietly_refl, of d 0] in simp)
  show ?thesis
  proof (cases "mgr c")
    case Top
    show ?thesis
    proof (cases "storage c = []")
      case True
      then show ?thesis
        using Top open_in quietly_Tau [OF top_empty quietly_refl, of c 1]
        by (intro exI [of _ "c\<lparr>mgr := WaitIn\<rparr>"]) (simp add: numeral_2_eq_2)
    next
      case False
      then show ?thesis
        using Top open_in enter [of "c\<lparr>mgr := Enter\<rparr>"] quietly_Tau [OF top_full, of c 1]
        by (auto simp: numeral_2_eq_2)
    qed
  next
    case Enter
    then show ?thesis
      using assms enter [of c] by (fastforce simp: chan_ok_def quietly_def)
  next
    case Stopping
    then have "drains 2 c"
      using assms drains_Stopping [of c 0] by (simp add: chan_ok_def numeral_2_eq_2)
    then show ?thesis using open_in by (auto simp: drains_def)
  next
    case Stopped
    then have "drains 2 c"
      using assms drains_Stopped [of c 1] by (simp add: chan_ok_def numeral_2_eq_2)
    then show ?thesis using open_in by (auto simp: drains_def)
  qed (use assms open_in quietly_refl in \<open>force simp: chan_ok_def\<close>)+
qed

text \<open>
  What is left to do before the manager crashes, once \<open>In()\<close> is closed and while nobody
  cancels.
\<close>

fun fuse_at :: "manager \<Rightarrow> nat" where
  "fuse_at Top = 4"
| "fuse_at WaitIn = 3"
| "fuse_at Enter = 2"
| "fuse_at Serve = 1"
| "fuse_at _ = 0"

definition fuse :: "'a unlimited_channel \<Rightarrow> nat" where
  "fuse c = fuse_at (mgr c) + 4 * length (storage c) + (if out_closed c then 0 else 4)"

definition doomed :: "'a unlimited_channel \<Rightarrow> bool" where
  "doomed c \<longleftrightarrow> in_closed c \<and> mgr c \<notin> {Stopping, Stopped, Drain} \<and> \<not> cancelled c \<and>
     \<not> finalized c"

lemma doomed_step:
  "doomed c \<Longrightarrow> uchan_step c e c' \<Longrightarrow> e \<notin> {Cancel, RecvClosed} \<Longrightarrow> doomed c' \<and> fuse c' < fuse c"
  by (erule uchan_step.cases) (auto simp: doomed_def fuse_def close_out_def)

lemma doomed_run:
  "run uchan_step c es c' \<Longrightarrow> doomed c \<Longrightarrow> set es \<inter> {Cancel, RecvClosed} = {} \<Longrightarrow>
    doomed c' \<and> length es + fuse c' \<le> fuse c"
  by (induction rule: run.induct) (use doomed_step in fastforce)+

lemma doomed_moves: "doomed c \<Longrightarrow> (\<exists>p. mgr c = Crashed p) \<or> (\<exists>c'. uchan_step c Tau c')"
  by (cases "mgr c"; cases "storage c = []")
    (auto simp: doomed_def uchan_Tau)

text \<open>After the announcement the manager only drains.\<close>

lemma drain_step:
  "uchan_step c e c' \<Longrightarrow> mgr c = Drain \<Longrightarrow>
    received [e] = [] \<and> mgr c' = Drain \<and> storage c' = storage c"
  by (erule uchan_step.cases) auto

lemma drain_run:
  "run uchan_step c es c' \<Longrightarrow> mgr c = Drain \<Longrightarrow>
    received es = [] \<and> mgr c' = Drain \<and> storage c' = storage c"
  by (induction rule: run.induct) (auto dest: drain_step)

section \<open>Properties\<close>

text \<open>
  C3. Nothing is lost, duplicated or reordered: in every run of the manager, the values
  accepted from \<open>In()\<close> before it announces finalization are exactly the values delivered on
  \<open>Out()\<close> followed by those still in the storage, in the order of sending.
\<close>

theorem UnlimitedChannel_fifo:
  assumes "run uchan_step NewUnlimitedChannel tr c"
  shows "accepted tr = received tr @ storage c"
  by (rule uc.accounts [OF assms])

definition chan_trace :: "nat chan_event list" where
  "chan_trace = [Tau, Send 1, Tau, Send 2, Tau, Tau, Recv 1, Tau, Tau, Send 3, Cancel, Tau, Tau,
     Tau, Tau, Finalized, Send 4]"

definition chan_end :: "nat unlimited_channel" where
  "chan_end = \<lparr>mgr = Drain, storage = [2, 3], in_closed = False, out_closed = True,
     cancelled = True, finalized = True\<rparr>"

lemma chan_trace_run: "run uchan_step NewUnlimitedChannel chan_trace chan_end"
  by (simp add: chan_trace_def chan_end_def run_Cons_iff NewUnlimitedChannel_def uchan_simps
      close_out_def)

theorem UnlimitedChannel_fifo_witness: "accepted chan_trace = received chan_trace @ storage chan_end"
  by (rule UnlimitedChannel_fifo [OF chan_trace_run])

text \<open>
  C19. \<open>Finalize\<close> returns exactly what was accepted and not delivered, and nothing is delivered
  after the manager announced the finalization.
\<close>

theorem Finalize_returns_rest:
  assumes "run uchan_step NewUnlimitedChannel tr c" and "uchan_step c (Final xs) c'"
    and "run uchan_step c' later d"
  shows "accepted tr = received tr @ xs \<and> received later = []"
proof -
  have x: "xs = storage c" "c' = c" "finalized c"
    using assms(2) by (simp_all add: uchan_Final)
  have "accounted tr c" by (rule run_accounted [OF assms(1)])
  then show ?thesis
    using drain_run [OF assms(3)] x by (simp add: accounted_def)
qed

theorem Finalize_returns_rest_witness:
  "accepted chan_trace = received chan_trace @ [2, 3] \<and> received [Send 5, RecvClosed] = ([] :: nat list)"
proof (rule Finalize_returns_rest [OF chan_trace_run])
  show "uchan_step chan_end (Final [2, 3]) chan_end"
    by (simp add: chan_end_def uchan_Final)
  show "run uchan_step chan_end [Send 5, RecvClosed] chan_end"
    by (simp add: chan_end_def run_Cons_iff uchan_Send uchan_RecvClosed)
qed

text \<open>
  C20. A send on \<open>In()\<close> never blocks: while \<open>In()\<close> is open, the manager has not crashed, and
  after at most two internal events it takes any value, before, during and after \<open>Finalize\<close>.
\<close>

theorem In_never_blocks:
  assumes "run uchan_step NewUnlimitedChannel tr c" and "CloseIn \<notin> set tr"
  shows "(\<nexists>p. mgr c = Crashed p) \<and> (\<exists>c' c''. quietly 2 c c' \<and> uchan_step c' (Send x) c'')"
proof -
  have ok: "chan_ok c"
    using run_chan_ok [OF assms(1) chan_ok_new assms(2)] .
  obtain c' where "quietly 2 c c'" "\<not> in_closed c'" "mgr c' \<in> {WaitIn, Serve, Drain}"
    using accepts_soon [OF ok] by blast
  then show ?thesis
    using send_enabled [of c' x] ok by (auto simp: chan_ok_def)
qed

theorem In_never_blocks_witness:
  "(\<nexists>p. mgr chan_end = Crashed p) \<and>
   (\<exists>c' c''. quietly 2 chan_end c' \<and> uchan_step c' (Send 9) c'')"
  by (rule In_never_blocks [OF chan_trace_run]) (simp add: chan_trace_def)

text \<open>
  \<open>Finalize\<close> can return: once it has cancelled the manager, at most five internal events
  lead to a state in which it returns the storage the manager had.
\<close>

theorem Finalize_terminates:
  assumes "run uchan_step NewUnlimitedChannel tr c" and "CloseIn \<notin> set tr" and "Cancel \<in> set tr"
  shows "\<exists>c'. quietly 5 c c' \<and> uchan_step c' (Final (storage c)) c'"
proof -
  have ok: "chan_ok c"
    using run_chan_ok [OF assms(1) chan_ok_new assms(2)] .
  have "drains 5 c"
    using finishes [OF ok, of 0] run_accounted [OF assms(1)] assms(3)
    by (simp add: accounted_def numeral_eq_Suc)
  then obtain c' where c': "quietly 5 c c'" "mgr c' = Drain" "finalized c'" "cancelled c'"
      "storage c' = storage c"
    by (auto simp: drains_def)
  have "uchan_step c' (Final (storage c)) c'"
    using finalize_return [of c'] c' by simp
  then show ?thesis using c'(1) by blast
qed

theorem Finalize_terminates_witness:
  "\<exists>c'. quietly 5 chan_end c' \<and> uchan_step c' (Final (storage chan_end)) c'"
  by (rule Finalize_terminates [OF chan_trace_run]) (simp_all add: chan_trace_def)

text \<open>
  Closing \<open>In()\<close>, the usual way to end a Go channel, kills the program: as long as nobody
  calls \<open>Finalize\<close>, only a bounded number of further steps is possible, and the manager can
  always take one until it panics.
\<close>

theorem In_closed_crashes:
  assumes "run uchan_step NewUnlimitedChannel tr c" and "CloseIn \<in> set tr" and "Cancel \<notin> set tr"
    and "run uchan_step c later c'" and "set later \<inter> {Cancel, RecvClosed} = {}"
  shows "length later \<le> fuse c \<and> ((\<exists>p. mgr c' = Crashed p) \<or> (\<exists>d. uchan_step c' Tau d))"
proof -
  have "doomed c"
    using run_accounted [OF assms(1)] assms(2,3) by (auto simp: accounted_def doomed_def)
  then have "doomed c'" "length later \<le> fuse c"
    using doomed_run [OF assms(4) _ assms(5)] by auto
  then show ?thesis using doomed_moves by blast
qed

definition closed_trace :: "nat chan_event list" where
  "closed_trace = [Tau, Send 1, CloseIn]"

definition closed_state :: "nat unlimited_channel" where
  "closed_state = \<lparr>mgr = Enter, storage = [1], in_closed = True, out_closed = False,
     cancelled = False, finalized = False\<rparr>"

theorem In_closed_crashes_witness:
  "length [Tau, Recv (1 :: nat), Tau, Tau, Tau] \<le> fuse closed_state \<and>
   ((\<exists>p. mgr (closed_state\<lparr>mgr := Crashed IndexOutOfRange, storage := [], out_closed := True\<rparr>)
       = Crashed p) \<or>
    (\<exists>d. uchan_step (closed_state\<lparr>mgr := Crashed IndexOutOfRange, storage := [],
       out_closed := True\<rparr>) Tau d))"
proof (rule In_closed_crashes)
  show "run uchan_step NewUnlimitedChannel closed_trace closed_state"
    by (simp add: closed_trace_def closed_state_def run_Cons_iff NewUnlimitedChannel_def
        uchan_simps)
  show "run uchan_step closed_state [Tau, Recv 1, Tau, Tau, Tau]
      (closed_state\<lparr>mgr := Crashed IndexOutOfRange, storage := [], out_closed := True\<rparr>)"
    by (simp add: closed_state_def run_Cons_iff uchan_simps close_out_def)
qed (simp_all add: closed_trace_def)

end
