(* ===== verification/Cache.thy ===== *)
theory Cache
  imports Safe_Map
begin

text \<open>
  \<open>cache/cache.go\<close>: the cache with expiry and refresh, over the map of \<open>Safe_Map\<close>. The clock
  and the refreshers act on a world that every operation threads through; \<open>now\<close> reads the
  clock, in nanoseconds. The map stores pointers to items, but an item is only written on a
  clone before it is published, so a map of item values is the same. The first sections are
  the operations of one caller and the sweep of \<open>refreshAll\<close>; the last interleaves the sweep
  with callers.
\<close>

section \<open>Items\<close>

datatype 'e cache_error = ErrStale | ErrNoRefresher | ErrUnexpected | RefreshError 'e

type_synonym ('w, 'e, 'v) refresher_fun = "'w \<Rightarrow> ('e + 'v) \<times> 'w"

record ('w, 'e, 'v) cacheItem =
  ts :: int
  ttl :: int64
  refresher :: "('w, 'e, 'v) refresher_fun option"
  item_v :: 'v
  lazyRefresh :: bool

definition clone :: "('w, 'e, 'v) cacheItem \<Rightarrow> ('w, 'e, 'v) cacheItem" where
  "clone ci = \<lparr>ts = ts ci, ttl = ttl ci, refresher = refresher ci, item_v = item_v ci,
     lazyRefresh = lazyRefresh ci\<rparr>"

text \<open>An item without a time to live does not read the clock.\<close>

definition expired ::
  "('w \<Rightarrow> int \<times> 'w) \<Rightarrow> ('w, 'e, 'v) cacheItem \<Rightarrow> 'w \<Rightarrow> bool \<times> 'w" where
  "expired now ci w =
     (if ttl ci = 0 then (False, w)
      else let (t, w1) = now w in (ts ci + val64 (ttl ci) < t, w1))"

definition refresh ::
  "('w \<Rightarrow> int \<times> 'w) \<Rightarrow> ('w, 'e, 'v) cacheItem \<Rightarrow> 'w \<Rightarrow>
    ('e cache_error + bool) \<times> ('w, 'e, 'v) cacheItem \<times> 'w" where
  "refresh now ci w =
     (case refresher ci of
        None \<Rightarrow> (Inr False, ci, w)
      | Some f \<Rightarrow>
          let (old, w1) = expired now ci w in
          if \<not> old then (Inr False, ci, w1)
          else case f w1 of
              (Inl err, w2) \<Rightarrow> (Inl (RefreshError err), ci, w2)
            | (Inr v, w2) \<Rightarrow>
                let (t, w3) = now w2 in (Inr True, ci\<lparr>item_v := v, ts := t\<rparr>, w3))"

section \<open>Options\<close>

record ('w, 'e, 'v) cacheOptions =
  opt_refresher :: "('w, 'e, 'v) refresher_fun option"
  opt_ttl :: int64
  opt_lazy :: bool
  opt_v :: 'v
  solid :: bool
  stale :: bool

datatype ('w, 'e, 'v) CacheOption =
    WithRefresher "('w, 'e, 'v) refresher_fun option"
  | WithTTL int64
  | WithLazyRefresh
  | WithValue 'v
  | WithStale

fun apply_option ::
  "('w, 'e, 'v) CacheOption \<Rightarrow> ('w, 'e, 'v) cacheOptions \<Rightarrow> ('w, 'e, 'v) cacheOptions" where
  "apply_option (WithRefresher f) opts = opts\<lparr>opt_refresher := f\<rparr>"
| "apply_option (WithTTL d) opts = opts\<lparr>opt_ttl := d\<rparr>"
| "apply_option WithLazyRefresh opts = opts\<lparr>opt_lazy := True\<rparr>"
| "apply_option (WithValue v) opts = opts\<lparr>opt_v := v, solid := True\<rparr>"
| "apply_option WithStale opts = opts\<lparr>stale := True\<rparr>"

text \<open>\<open>zero\<close> is the zero value of \<open>V\<close>.\<close>

definition read_options ::
  "'v \<Rightarrow> ('w, 'e, 'v) CacheOption list \<Rightarrow> ('w, 'e, 'v) cacheOptions" where
  "read_options zero options =
     fold apply_option options
       \<lparr>opt_refresher = None, opt_ttl = 0, opt_lazy = False, opt_v = zero, solid = False,
        stale = False\<rparr>"

section \<open>The operations\<close>

type_synonym ('k, 'w, 'e, 'v) cache_map = "('k, ('w, 'e, 'v) cacheItem) safe_map"

definition Cache_Delete ::
  "'k \<Rightarrow> ('k, 'w, 'e, 'v) cache_map \<Rightarrow> ('k, 'w, 'e, 'v) cache_map" where
  "Cache_Delete k m = Map_Delete k m"

definition Cache_Set ::
  "('w \<Rightarrow> int \<times> 'w) \<Rightarrow> 'v \<Rightarrow> 'k \<Rightarrow> ('w, 'e, 'v) CacheOption list \<Rightarrow>
    ('k, 'w, 'e, 'v) cache_map \<Rightarrow> 'w \<Rightarrow>
    'e cache_error option \<times> ('k, 'w, 'e, 'v) cache_map \<times> 'w" where
  "Cache_Set now zero k options m w =
     (let opts = read_options zero options;
          store = (\<lambda>v w. let (t, w') = now w in
            (None,
             Map_Set k \<lparr>ts = t, ttl = opt_ttl opts, refresher = opt_refresher opts, item_v = v,
               lazyRefresh = opt_lazy opts\<rparr> m,
             w'))
      in if solid opts then store (opt_v opts) w
         else case opt_refresher opts of
             None \<Rightarrow> (Some ErrNoRefresher, m, w)
           | Some f \<Rightarrow>
               case f w of
                 (Inl err, w1) \<Rightarrow> (Some (RefreshError err), m, w1)
               | (Inr v, w1) \<Rightarrow> store v w1)"

definition Cache_Get ::
  "('w \<Rightarrow> int \<times> 'w) \<Rightarrow> 'v \<Rightarrow> 'k \<Rightarrow> ('w, 'e, 'v) CacheOption list \<Rightarrow>
    ('k, 'w, 'e, 'v) cache_map \<Rightarrow> 'w \<Rightarrow>
    ('v \<times> 'e cache_error option) \<times> ('k, 'w, 'e, 'v) cache_map \<times> 'w" where
  "Cache_Get now zero k options m w =
     (let opts = read_options zero options in
      case Map_Get m k of
        None \<Rightarrow>
          (case Cache_Set now zero k options m w of
             (Some err, m1, w1) \<Rightarrow> ((zero, Some err), m1, w1)
           | (None, m1, w1) \<Rightarrow>
               (case Map_Get m1 k of
                  None \<Rightarrow> ((zero, Some ErrUnexpected), m1, w1)
                | Some ci \<Rightarrow> ((item_v ci, None), m1, w1)))
      | Some ci0 \<Rightarrow>
          let ci = clone ci0; (old, w1) = expired now ci w in
          if \<not> old then ((item_v ci, None), m, w1)
          else case refresh now ci w1 of
              (Inl err, ci1, w2) \<Rightarrow>
                if stale opts then ((item_v ci1, Some ErrStale), m, w2)
                else ((zero, Some err), m, w2)
            | (Inr refreshed, ci1, w2) \<Rightarrow>
                if \<not> refreshed then
                  if stale opts then ((item_v ci1, Some ErrStale), m, w2)
                  else ((item_v ci1, Some ErrNoRefresher), m, w2)
                else ((item_v ci1, None), Map_Set k ci1 m, w2))"

section \<open>The refresh sweep\<close>

text \<open>One key of the loop of \<open>refreshAll\<close>, and the loop over the keys of one tick.\<close>

definition refresh_key ::
  "('w \<Rightarrow> int \<times> 'w) \<Rightarrow> 'k \<Rightarrow> ('k, 'w, 'e, 'v) cache_map \<times> 'w \<Rightarrow>
    ('k, 'w, 'e, 'v) cache_map \<times> 'w" where
  "refresh_key now k = (\<lambda>(m, w).
     case Map_Get m k of
       None \<Rightarrow> (m, w)
     | Some ci \<Rightarrow>
         if lazyRefresh ci then (m, w)
         else case refresh now (clone ci) w of
             (Inl err, ci1, w1) \<Rightarrow> (m, w1)
           | (Inr False, ci1, w1) \<Rightarrow> (m, w1)
           | (Inr True, ci1, w1) \<Rightarrow> (Map_Set k ci1 m, w1))"

definition refresh_keys ::
  "('w \<Rightarrow> int \<times> 'w) \<Rightarrow> 'k list \<Rightarrow> ('k, 'w, 'e, 'v) cache_map \<times> 'w \<Rightarrow>
    ('k, 'w, 'e, 'v) cache_map \<times> 'w" where
  "refresh_keys now keys = fold (refresh_key now) keys"

lemma clone_id [simp]: "clone ci = ci"
  by (simp add: clone_def)

lemmas cache_defs = Cache_Set_def Cache_Get_def Let_def

lemma Get_put [simp]:
  "Map_Get (Map_Set k ci m) k' = (if k' = k then Some ci else Map_Get m k')"
  by (rule sm.get_put)

lemma refresh_cases:
  obtains
    (kept) w' where "refresh now ci w = (Inr False, ci, w')"
  | (failed) err w' where "refresh now ci w = (Inl (RefreshError err), ci, w')"
  | (renewed) f w1 v w2 t w3 where "refresher ci = Some f" "expired now ci w = (True, w1)"
      "f w1 = (Inr v, w2)" "now w2 = (t, w3)"
      "refresh now ci w = (Inr True, ci\<lparr>item_v := v, ts := t\<rparr>, w3)"
proof -
  consider "refresher ci = None" | f w1 where "refresher ci = Some f" "expired now ci w = (False, w1)"
    | f w1 where "refresher ci = Some f" "expired now ci w = (True, w1)"
    by (metis (full_types) not_None_eq surj_pair)
  then show thesis
  proof cases
    case (3 f w1)
    obtain r w2 where r: "f w1 = (r, w2)" by fastforce
    obtain t w3 where t: "now w2 = (t, w3)" by fastforce
    show thesis
      by (cases r) (use 3 r t failed renewed in \<open>auto simp: refresh_def\<close>)
  qed (use kept in \<open>auto simp: refresh_def\<close>)
qed

section \<open>Lemmas on the operations\<close>









lemma Cache_Set_cases:
  obtains
    (stored) v w1 t w2 where "now w1 = (t, w2)"
      "solid (read_options zero options) \<and> v = opt_v (read_options zero options) \<and> w1 = w \<or>
       (\<exists>f. opt_refresher (read_options zero options) = Some f \<and> f w = (Inr v, w1))"
      "Cache_Set now zero k options m w =
        (None, Map_Set k \<lparr>ts = t, ttl = opt_ttl (read_options zero options),
           refresher = opt_refresher (read_options zero options), item_v = v,
           lazyRefresh = opt_lazy (read_options zero options)\<rparr> m, w2)"
  | (no_value) "opt_refresher (read_options zero options) = None"
      "\<not> solid (read_options zero options)"
      "Cache_Set now zero k options m w = (Some ErrNoRefresher, m, w)"
  | (failed) f err w1 where "opt_refresher (read_options zero options) = Some f"
      "f w = (Inl err, w1)"
      "Cache_Set now zero k options m w = (Some (RefreshError err), m, w1)"
proof (cases "solid (read_options zero options)")
  case True
  obtain t w2 where "now w = (t, w2)" by fastforce
  then show thesis using True by (intro stored) (auto simp: Cache_Set_def Let_def)
next
  case False
  show thesis
  proof (cases "opt_refresher (read_options zero options)")
    case None
    then show thesis using False by (intro no_value) (auto simp: Cache_Set_def Let_def)
  next
    case (Some f)
    obtain r w1 where r: "f w = (r, w1)" by fastforce
    obtain t w2 where "now w1 = (t, w2)" by fastforce
    then show thesis
      using False Some r stored failed by (cases r) (auto simp: Cache_Set_def Let_def)
  qed
qed


lemma Cache_Get_cases:
  obtains
    (missing) err w1 where "Map_Get m k = None"
      "Cache_Set now zero k options m w = (Some err, m, w1)"
      "err = ErrNoRefresher \<or> (\<exists>e. err = RefreshError e)"
      "Cache_Get now zero k options m w = ((zero, Some err), m, w1)"
  | (created) m1 w1 ci where "Map_Get m k = None"
      "Cache_Set now zero k options m w = (None, m1, w1)" "Map_Get m1 k = Some ci"
      "Cache_Get now zero k options m w = ((item_v ci, None), m1, w1)"
  | (hit) ci w1 where "Map_Get m k = Some ci" "expired now ci w = (False, w1)"
      "Cache_Get now zero k options m w = ((item_v ci, None), m, w1)"
  | (renewed) ci w1 ci1 w2 where "Map_Get m k = Some ci" "expired now ci w = (True, w1)"
      "refresh now ci w1 = (Inr True, ci1, w2)"
      "Cache_Get now zero k options m w = ((item_v ci1, None), Map_Set k ci1 m, w2)"
  | (old) ci w1 w2 where "Map_Get m k = Some ci" "expired now ci w = (True, w1)"
      "stale (read_options zero options)"
      "Cache_Get now zero k options m w = ((item_v ci, Some ErrStale), m, w2)"
  | (no_refresher) ci w1 w2 where "Map_Get m k = Some ci" "expired now ci w = (True, w1)"
      "\<not> stale (read_options zero options)"
      "refresh now ci w1 = (Inr False, ci, w2)"
      "Cache_Get now zero k options m w = ((item_v ci, Some ErrNoRefresher), m, w2)"
  | (failed) ci w1 err w2 where "Map_Get m k = Some ci" "expired now ci w = (True, w1)"
      "\<not> stale (read_options zero options)"
      "refresh now ci w1 = (Inl (RefreshError err), ci, w2)"
      "Cache_Get now zero k options m w = ((zero, Some (RefreshError err)), m, w2)"
proof (cases "Map_Get m k")
  case None
  show thesis
    by (rule Cache_Set_cases [where now = now and w = w and zero = zero and options = options
          and k = k and m = m])
      (use None missing created in \<open>auto simp: Cache_Get_def Let_def\<close>)
next
  case (Some ci)
  obtain is_old w1 where e: "expired now ci w = (is_old, w1)" by fastforce
  show thesis
  proof (cases is_old)
    case False
    then show thesis using Some e hit by (simp add: Cache_Get_def Let_def)
  next
    case True
    show thesis
      by (cases rule: refresh_cases [of now ci w1];
          cases "stale (read_options zero options)")
        (use Some e True renewed old no_refresher failed in \<open>auto simp: Cache_Get_def Let_def\<close>)
  qed
qed







section \<open>Sequences of operations\<close>

datatype ('k, 'w, 'e, 'v) cache_op =
    DoSet 'k "('w, 'e, 'v) CacheOption list"
  | DoGet 'k "('w, 'e, 'v) CacheOption list"
  | DoDelete 'k
  | DoSweep "'k list"

fun cache_exec ::
  "('w \<Rightarrow> int \<times> 'w) \<Rightarrow> 'v \<Rightarrow> ('k, 'w, 'e, 'v) cache_op \<Rightarrow>
    ('k, 'w, 'e, 'v) cache_map \<times> 'w \<Rightarrow> ('k, 'w, 'e, 'v) cache_map \<times> 'w" where
  "cache_exec now zero (DoSet k options) (m, w) = snd (Cache_Set now zero k options m w)"
| "cache_exec now zero (DoGet k options) (m, w) = snd (Cache_Get now zero k options m w)"
| "cache_exec now zero (DoDelete k) (m, w) = (Cache_Delete k m, w)"
| "cache_exec now zero (DoSweep ks) (m, w) = refresh_keys now ks (m, w)"






section \<open>The goroutine of \<open>refreshAll\<close>\<close>






text \<open>
  The loop: a ticker with room for one tick, and a context that may be cancelled. The
  callers' operations come in between.
\<close>

record ('k, 'w, 'e, 'v) refresh_loop =
  loop_map :: "('k, 'w, 'e, 'v) cache_map"
  loop_world :: 'w
  loop_cancelled :: bool
  ticking :: bool
  due :: bool

datatype ('k, 'w, 'e, 'v) loop_event =
    Caller "('k, 'w, 'e, 'v) cache_op"
  | CancelCtx
  | TickFires
  | TakeDone
  | TakeTick "'k list"


inductive loop_step ::
  "('w \<Rightarrow> int \<times> 'w) \<Rightarrow> 'v \<Rightarrow> ('k, 'w, 'e, 'v) refresh_loop \<Rightarrow>
    ('k, 'w, 'e, 'v) loop_event \<Rightarrow> ('k, 'w, 'e, 'v) refresh_loop \<Rightarrow> bool"
  for now :: "'w \<Rightarrow> int \<times> 'w" and zero :: 'v where
  caller: "\<forall>ks. op \<noteq> DoSweep ks \<Longrightarrow> cache_exec now zero op (loop_map s, loop_world s) = (m, w) \<Longrightarrow>
    loop_step now zero s (Caller op) (s\<lparr>loop_map := m, loop_world := w\<rparr>)"
| cancel_ctx: "loop_step now zero s CancelCtx (s\<lparr>loop_cancelled := True\<rparr>)"
| tick_fires: "ticking s \<Longrightarrow> loop_step now zero s TickFires (s\<lparr>due := True\<rparr>)"
| take_done: "loop_cancelled s \<Longrightarrow> loop_step now zero s TakeDone (s\<lparr>ticking := False\<rparr>)"
| take_tick: "due s \<Longrightarrow> Map_Keys (loop_map s) ks \<Longrightarrow>
    refresh_keys now ks (loop_map s, loop_world s) = (m, w) \<Longrightarrow>
    loop_step now zero s (TakeTick ks) (s\<lparr>loop_map := m, loop_world := w, due := False\<rparr>)"



text \<open>The sweep of one tick as the goroutine runs it, an access to the map at a time.\<close>

datatype ('k, 'w, 'e, 'v) sweeper =
    Rest
  | Looping "'k list"
  | Loaded 'k "('w, 'e, 'v) cacheItem" "'k list"
  | Storing 'k "('w, 'e, 'v) cacheItem" "'k list"

fun sweeper_step ::
  "('w \<Rightarrow> int \<times> 'w) \<Rightarrow> ('k, 'w, 'e, 'v) sweeper \<times> ('k, 'w, 'e, 'v) cache_map \<times> 'w \<Rightarrow>
    ('k, 'w, 'e, 'v) sweeper \<times> ('k, 'w, 'e, 'v) cache_map \<times> 'w" where
  "sweeper_step now (Rest, m, w) = (Rest, m, w)"
| "sweeper_step now (Looping [], m, w) = (Rest, m, w)"
| "sweeper_step now (Looping (k # ks), m, w) =
     (case Map_Get m k of
        None \<Rightarrow> (Looping ks, m, w)
      | Some ci \<Rightarrow> if lazyRefresh ci then (Looping ks, m, w) else (Loaded k (clone ci) ks, m, w))"
| "sweeper_step now (Loaded k ci ks, m, w) =
     (case refresh now ci w of
        (Inl err, ci1, w1) \<Rightarrow> (Looping ks, m, w1)
      | (Inr False, ci1, w1) \<Rightarrow> (Looping ks, m, w1)
      | (Inr True, ci1, w1) \<Rightarrow> (Storing k ci1 ks, m, w1))"
| "sweeper_step now (Storing k ci ks, m, w) = (Looping ks, Map_Set k ci m, w)"

text \<open>A schedule: \<open>None\<close> lets the goroutine take a step, \<open>Some op\<close> a caller.\<close>

fun interleave ::
  "('w \<Rightarrow> int \<times> 'w) \<Rightarrow> 'v \<Rightarrow> ('k, 'w, 'e, 'v) cache_op option list \<Rightarrow>
    ('k, 'w, 'e, 'v) sweeper \<times> ('k, 'w, 'e, 'v) cache_map \<times> 'w \<Rightarrow>
    ('k, 'w, 'e, 'v) sweeper \<times> ('k, 'w, 'e, 'v) cache_map \<times> 'w" where
  "interleave now zero [] s = s"
| "interleave now zero (None # es) s = interleave now zero es (sweeper_step now s)"
| "interleave now zero (Some op # es) (p, m, w) =
     interleave now zero es (p, cache_exec now zero op (m, w))"











section \<open>Properties\<close>


text \<open>A world for the witnesses: the clock in seconds, and a refresher that takes a while.\<close>

definition tick_now :: "int \<Rightarrow> int \<times> int" where
  "tick_now w = (w, w + 1)"

definition answer :: "(int, string, int) refresher_fun" where
  "answer w = (Inr 42, w + 5)"

definition broken :: "(int, string, int) refresher_fun" where
  "broken w = (Inl ''down'', w)"

definition item42 :: "(int, string, int) cacheItem" where
  "item42 = \<lparr>ts = 0, ttl = of_int64 10, refresher = Some answer, item_v = 1, lazyRefresh = False\<rparr>"

definition cache42 :: "(nat, int, string, int) cache_map" where
  "cache42 = Map_Set 7 item42 NewMap"

lemma ttl10 [simp]: "val64 (of_int64 10) = 10" "of_int64 10 \<noteq> 0"
proof -
  show *: "val64 (of_int64 10) = 10" by (simp add: val64_of_int64 fits64_def)
  then show "of_int64 10 \<noteq> 0" using val64_zero by fastforce
qed





text \<open>The value that goes with an error of \<open>Get\<close>, given what the key held.\<close>

fun error_value ::
  "'v \<Rightarrow> ('w, 'e, 'v) cacheOptions \<Rightarrow> ('w, 'e, 'v) cacheItem option \<Rightarrow> 'e cache_error \<Rightarrow>
    'v option" where
  "error_value zero opts (Some ci) ErrStale = (if stale opts then Some (item_v ci) else None)"
| "error_value zero opts None ErrStale = None"
| "error_value zero opts (Some ci) ErrNoRefresher =
     (if stale opts then None else Some (item_v ci))"
| "error_value zero opts None ErrNoRefresher =
     (if opt_refresher opts = None \<and> \<not> solid opts then Some zero else None)"
| "error_value zero opts item ErrUnexpected = None"
| "error_value zero opts item (RefreshError e) =
     (if item \<noteq> None \<and> stale opts then None else Some zero)"

text \<open>
  C30. A failing \<open>Get\<close> leaves the cache as it was, and the value it returns is fixed by the
  error: the old value with \<open>ErrStale\<close>, which needs the option and a stored item, or with
  \<open>ErrNoRefresher\<close> on a stored item; otherwise the zero value. \<open>ErrUnexpected\<close> is never
  returned, and a failing refresher is reported only when the option for stale values is not
  set or nothing is stored.
\<close>

theorem Cache_Get_error:
  assumes "Cache_Get now zero k options m w = ((v, Some err), m', w')"
  shows "m' = m \<and> error_value zero (read_options zero options) (Map_Get m k) err = Some v"
proof (cases rule: Cache_Get_cases [where now = now and w = w and zero = zero
      and options = options and k = k and m = m])
  case (missing err1 w1)
  show ?thesis
    by (cases rule: Cache_Set_cases [where now = now and w = w and zero = zero
          and options = options and k = k and m = m])
      (use missing assms in auto)
qed (use assms in auto)

definition stale42 :: "(nat, int, string, int) cache_map" where
  "stale42 = Map_Set 7 (item42\<lparr>refresher := Some broken\<rparr>) NewMap"

theorem Cache_Get_error_witness:
  "stale42 = stale42 \<and>
   error_value 0 (read_options 0 [WithStale]) (Map_Get stale42 7) ErrStale = Some 1"
proof (rule Cache_Get_error)
  show "Cache_Get tick_now 0 7 [WithStale] stale42 20 = ((1, Some ErrStale), stale42, 22)"
    by (simp add: cache_defs read_options_def stale42_def item42_def expired_def refresh_def
        tick_now_def broken_def)
qed






text \<open>
  With callers in between it has not: the goroutine stores what it computed from an item
  without looking again, so a key that a caller deleted meanwhile comes back.
\<close>

theorem refreshAll_resurrects:
  "\<exists>m' w'. interleave tick_now 0 [None, None, Some (DoDelete 7), None, None]
       (Looping [7], cache42, 20) = (Rest, m', w') \<and>
     Map_Get (fst (cache_exec tick_now 0 (DoDelete 7) (cache42, 20))) 7 = None \<and>
     Map_Get m' 7 \<noteq> None"
  by (simp add: cache42_def item42_def refresh_def expired_def tick_now_def answer_def
      Cache_Delete_def sm.get_remove)



end
