(* ===== verification/Pool.thy ===== *)
theory Pool
  imports Quiver_Prelude
begin

text \<open>
  \<open>pool/pool.go\<close>: the pool of goroutines, as a step relation of its workers, of the one
  goroutine that calls \<open>Run\<close> and \<open>UntilFinished\<close> (\<open>Run\<close> writes \<open>count\<close> without a lock, so
  there is one), and of the goroutine that \<open>UntilFinished\<close> starts. The channel of tasks is
  unbuffered: handing over a task is one event of the caller and a worker. A task is a value
  that a worker starts and finishes; what finishing it does is up to the client.
\<close>

section \<open>The pool\<close>

record 'c pool_options =
  po_ctx :: "'c option"
  po_size :: int64

datatype 'c pool_option = WithContext "'c option" | WithSize int64

fun apply_pool_option :: "'c pool_option \<Rightarrow> 'c pool_options \<Rightarrow> 'c pool_options" where
  "apply_pool_option (WithContext c) p = (if c \<noteq> None then p\<lparr>po_ctx := c\<rparr> else p)"
| "apply_pool_option (WithSize n) p = p\<lparr>po_size := n\<rparr>"

text \<open>A worker waits in its \<open>select\<close>, runs a task, or has returned.\<close>

datatype 'a worker = Selecting | Running 'a | Gone

text \<open>
  The caller: between calls, in \<open>p.tasks <- task\<close> (\<open>None\<close> is the nil task), in the \<open>select\<close> of
  \<open>UntilFinished\<close>, returned from it (without or with the error of the context), or dead of a
  panic.
\<close>

datatype wait_result = NoError | CtxErr

datatype 'a client =
    Ready
  | Submitting "'a option"
  | Awaiting
  | Returned wait_result
  | Panicked go_panic

datatype waiter = NoWaiter | OnGroup | Announcing | WaiterDone

record 'a pool =
  pool_size :: int64
  worker_count :: int
  wait_group :: int
  workers :: "'a worker list"
  tasks_closed :: bool
  ctx_done :: bool
  client :: "'a client"
  waiter :: waiter

definition New_pool :: "'c \<Rightarrow> 'c pool_option list \<Rightarrow> 'c \<times> 'a pool" where
  "New_pool background opts =
     (let p = fold apply_pool_option opts \<lparr>po_ctx = None, po_size = 0\<rparr>
      in (case po_ctx p of None \<Rightarrow> background | Some c \<Rightarrow> c,
          \<lparr>pool_size = po_size p, worker_count = 0, wait_group = 0, workers = [],
           tasks_closed = False, ctx_done = False, client = Ready, waiter = NoWaiter\<rparr>))"

text \<open>The start of \<open>Run\<close>: a new worker, unless there are as many as the size allows.\<close>

definition spawn :: "'a pool \<Rightarrow> 'a pool" where
  "spawn p =
     (if worker_count p < val64 (pool_size p) \<or> pool_size p = 0
      then p\<lparr>worker_count := worker_count p + 1, wait_group := wait_group p + 1,
             workers := workers p @ [Selecting]\<rparr>
      else p)"

datatype 'a pool_event =
    RunCall "'a option"
  | Take "'a option"
  | Done 'a
  | Exit
  | CloseTasks
  | GroupDone
  | Announce
  | ReturnErr
  | SendPanic
  | ClosePanic
  | CtxCancel

definition may_call :: "'a pool \<Rightarrow> bool" where
  "may_call p \<longleftrightarrow> client p = Ready \<or> (\<exists>r. client p = Returned r)"

inductive pool_step :: "'a pool \<Rightarrow> 'a pool_event \<Rightarrow> 'a pool \<Rightarrow> bool" where
  run_call: "may_call p \<Longrightarrow> pool_step p (RunCall t) (spawn p\<lparr>client := Submitting t\<rparr>)"
| send_closed: "client p = Submitting t \<Longrightarrow> tasks_closed p \<Longrightarrow>
    pool_step p SendPanic (p\<lparr>client := Panicked SendOnClosedChannel\<rparr>)"
| take_task: "client p = Submitting (Some t) \<Longrightarrow> \<not> tasks_closed p \<Longrightarrow>
    workers p = us @ Selecting # vs \<Longrightarrow>
    pool_step p (Take (Some t)) (p\<lparr>client := Ready, workers := us @ Running t # vs\<rparr>)"
| take_nil: "client p = Submitting None \<Longrightarrow> \<not> tasks_closed p \<Longrightarrow>
    workers p = us @ Selecting # vs \<Longrightarrow>
    pool_step p (Take None)
      (p\<lparr>client := Ready, workers := us @ Gone # vs, wait_group := wait_group p - 1\<rparr>)"
| task_done: "workers p = us @ Running t # vs \<Longrightarrow>
    pool_step p (Done t) (p\<lparr>workers := us @ Selecting # vs\<rparr>)"
| worker_exit: "tasks_closed p \<or> ctx_done p \<Longrightarrow> workers p = us @ Selecting # vs \<Longrightarrow>
    pool_step p Exit (p\<lparr>workers := us @ Gone # vs, wait_group := wait_group p - 1\<rparr>)"
| close_tasks: "may_call p \<Longrightarrow> \<not> tasks_closed p \<Longrightarrow>
    pool_step p CloseTasks (p\<lparr>tasks_closed := True, client := Awaiting, waiter := OnGroup\<rparr>)"
| close_again: "may_call p \<Longrightarrow> tasks_closed p \<Longrightarrow>
    pool_step p ClosePanic (p\<lparr>client := Panicked CloseOfClosedChannel\<rparr>)"
| group_done: "waiter p = OnGroup \<Longrightarrow> wait_group p = 0 \<Longrightarrow>
    pool_step p GroupDone (p\<lparr>waiter := Announcing\<rparr>)"
| announce: "waiter p = Announcing \<Longrightarrow> client p = Awaiting \<Longrightarrow>
    pool_step p Announce (p\<lparr>waiter := WaiterDone, client := Returned NoError\<rparr>)"
| return_err: "client p = Awaiting \<Longrightarrow> ctx_done p \<Longrightarrow>
    pool_step p ReturnErr (p\<lparr>client := Returned CtxErr\<rparr>)"
| ctx_cancel: "pool_step p CtxCancel (p\<lparr>ctx_done := True\<rparr>)"

inductive_simps pool_RunCall: "pool_step p (RunCall t) p'"
inductive_simps pool_Take: "pool_step p (Take t) p'"
inductive_simps pool_Done: "pool_step p (Done t) p'"
inductive_simps pool_Exit: "pool_step p Exit p'"
inductive_simps pool_CloseTasks: "pool_step p CloseTasks p'"
inductive_simps pool_GroupDone: "pool_step p GroupDone p'"
inductive_simps pool_Announce: "pool_step p Announce p'"
inductive_simps pool_ReturnErr: "pool_step p ReturnErr p'"
inductive_simps pool_SendPanic: "pool_step p SendPanic p'"
inductive_simps pool_ClosePanic: "pool_step p ClosePanic p'"
inductive_simps pool_CtxCancel: "pool_step p CtxCancel p'"

lemmas pool_simps =
  pool_RunCall pool_Take pool_Done pool_Exit pool_CloseTasks pool_GroupDone pool_Announce
  pool_ReturnErr pool_SendPanic pool_ClosePanic pool_CtxCancel

text \<open>A pool as \<open>New_pool\<close> makes it.\<close>

definition new_pool :: "int64 \<Rightarrow> 'a pool" where
  "new_pool n = snd (New_pool () [WithSize n])"

lemma new_pool_eq:
  "new_pool n = \<lparr>pool_size = n, worker_count = 0, wait_group = 0, workers = [],
     tasks_closed = False, ctx_done = False, client = Ready, waiter = NoWaiter\<rparr>"
  by (simp add: new_pool_def New_pool_def)

section \<open>What was submitted and what was executed\<close>

fun submitted :: "'a pool_event list \<Rightarrow> 'a list" where
  "submitted [] = []"
| "submitted (RunCall (Some t) # tr) = t # submitted tr"
| "submitted (e # tr) = submitted tr"

fun executed :: "'a pool_event list \<Rightarrow> 'a list" where
  "executed [] = []"
| "executed (Done t # tr) = t # executed tr"
| "executed (e # tr) = executed tr"

lemma submitted_append [simp]: "submitted (xs @ ys) = submitted xs @ submitted ys"
  by (induction xs rule: submitted.induct) auto

lemma executed_append [simp]: "executed (xs @ ys) = executed xs @ executed ys"
  by (induction xs rule: executed.induct) auto

fun running :: "'a worker list \<Rightarrow> 'a list" where
  "running [] = []"
| "running (Running t # ws) = t # running ws"
| "running (w # ws) = running ws"

fun alive :: "'a worker list \<Rightarrow> int" where
  "alive [] = 0"
| "alive (Gone # ws) = alive ws"
| "alive (w # ws) = alive ws + 1"

lemma running_append [simp]: "running (xs @ ys) = running xs @ running ys"
  by (induction xs rule: running.induct) auto

lemma alive_append [simp]: "alive (xs @ ys) = alive xs + alive ys"
  by (induction xs rule: alive.induct) auto

lemma alive_nonneg [simp]: "0 \<le> alive ws"
  by (induction ws rule: alive.induct) auto

lemma alive_0: "alive ws = 0 \<longleftrightarrow> set ws \<subseteq> {Gone}"
  by (induction ws rule: alive.induct) (auto simp: add_nonneg_eq_0_iff)

lemma running_gone: "set ws \<subseteq> {Gone} \<Longrightarrow> running ws = []"
  by (induction ws rule: running.induct) auto

lemma running_alive: "int (length (running ws)) \<le> alive ws"
  by (induction ws rule: running.induct) (auto intro: order_trans)

lemma alive_length: "alive ws \<le> int (length ws)"
  by (induction ws rule: alive.induct) (auto intro: order_trans)

fun pending :: "'a client \<Rightarrow> 'a list" where
  "pending (Submitting (Some t)) = [t]"
| "pending c = []"

text \<open>The bookkeeping of the pool, for every caller and every cancellation.\<close>

definition pool_ok :: "'a pool_event list \<Rightarrow> 'a pool \<Rightarrow> bool" where
  "pool_ok tr p \<longleftrightarrow>
     worker_count p = int (length (workers p)) \<and>
     wait_group p = alive (workers p) \<and>
     (0 < val64 (pool_size p) \<longrightarrow> worker_count p \<le> val64 (pool_size p)) \<and>
     (waiter p \<noteq> NoWaiter \<longrightarrow> tasks_closed p) \<and>
     (waiter p = Announcing \<and> client p = Awaiting \<longrightarrow> wait_group p = 0) \<and>
     (client p = Returned NoError \<longrightarrow> wait_group p = 0)"

definition tasks_ok :: "'a pool_event list \<Rightarrow> 'a pool \<Rightarrow> bool" where
  "tasks_ok tr p \<longleftrightarrow>
     mset (executed tr) + mset (running (workers p)) \<subseteq># mset (submitted tr) \<and>
     ((\<forall>e. client p \<noteq> Panicked e) \<longrightarrow>
       mset (submitted tr) =
         mset (executed tr) + mset (running (workers p)) + mset (pending (client p)))"

lemma submitted_single: "submitted [RunCall t] = pending (Submitting t)"
  by (cases t) simp_all

lemma alive_middle: "alive (us @ w # vs) = alive us + alive vs + alive [w]"
  by (cases w) simp_all

lemma alive_pos: "w \<noteq> Gone \<Longrightarrow> 0 < alive (us @ w # vs)"
  using alive_nonneg [of us] alive_nonneg [of vs] by (cases w) (simp_all del: alive_nonneg)

lemma may_call_cases: "may_call p \<Longrightarrow> client p \<noteq> Awaiting \<and> client p \<noteq> Panicked e \<and> pending (client p) = []"
  by (auto simp: may_call_def)

lemma pool_ok_step:
  assumes "pool_ok tr p" and "pool_step p e p'"
  shows "pool_ok (tr @ [e]) p'"
  using assms(2)
proof cases
  case (run_call t)
  then show ?thesis using assms(1) by (auto simp: pool_ok_def spawn_def)
next
  case (take_task t us vs)
  then show ?thesis
    using assms(1) by (auto simp: pool_ok_def)
next
  case (take_nil us vs)
  then show ?thesis
    using assms(1) by (auto simp: pool_ok_def)
next
  case (task_done us t vs)
  then show ?thesis
    using assms(1) by (auto simp: pool_ok_def)
next
  case (worker_exit us vs)
  then have "wait_group p \<noteq> 0"
    using assms(1) alive_pos [of Selecting us vs] by (simp add: pool_ok_def)
  then have "\<not> (waiter p = Announcing \<and> client p = Awaiting)" "client p \<noteq> Returned NoError"
    using assms(1) by (auto simp: pool_ok_def)
  then show ?thesis
    using worker_exit assms(1) by (auto simp: pool_ok_def)
next
  case close_tasks
  then show ?thesis using assms(1) by (auto simp: pool_ok_def may_call_def)
next
  case group_done
  then show ?thesis using assms(1) by (auto simp: pool_ok_def)
qed (use assms(1) in \<open>auto simp: pool_ok_def\<close>)

lemma tasks_ok_step:
  assumes "tasks_ok tr p" and "pool_step p e p'"
  shows "tasks_ok (tr @ [e]) p'"
  using assms(2)
proof cases
  case (run_call t)
  then show ?thesis
    using assms(1) may_call_cases [OF run_call(3)]
    by (simp add: tasks_ok_def spawn_def submitted_single)
next
  case close_tasks
  then show ?thesis
    using assms(1) may_call_cases [OF close_tasks(3)] by (simp add: tasks_ok_def)
qed (use assms(1) in \<open>simp_all add: tasks_ok_def\<close>)

interpretation pool_books: history_invariant pool_step pool_ok
  by unfold_locales (rule pool_ok_step)

interpretation pool_tasks: history_invariant pool_step tasks_ok
  by unfold_locales (rule tasks_ok_step)

lemma run_pool_ok: "run pool_step (new_pool n) tr p \<Longrightarrow> pool_ok tr p"
  by (rule pool_books.history_from_start) (auto simp: pool_ok_def new_pool_eq)

lemma run_tasks_ok: "run pool_step (new_pool n) tr p \<Longrightarrow> tasks_ok tr p"
  by (rule pool_tasks.history_from_start) (auto simp: tasks_ok_def new_pool_eq)

section \<open>The interface of the pool\<close>

text \<open>
  What a client relies on: only submitted tasks are executed, each at most once, and once the
  pool says that it is finished all of them were, in some order.
\<close>

locale task_pool =
  fixes step :: "'s \<Rightarrow> 'e \<Rightarrow> 's \<Rightarrow> bool"
    and start :: "'s \<Rightarrow> bool"
    and given :: "'e list \<Rightarrow> 'a list"
    and carried_out :: "'e list \<Rightarrow> 'a list"
    and finished :: "'s \<Rightarrow> bool"
  assumes at_most_once: "start s \<Longrightarrow> run step s tr s' \<Longrightarrow> mset (carried_out tr) \<subseteq># mset (given tr)"
    and all_once: "start s \<Longrightarrow> run step s tr s' \<Longrightarrow> finished s' \<Longrightarrow>
      mset (carried_out tr) = mset (given tr)"
begin

lemma only_given: "start s \<Longrightarrow> run step s tr s' \<Longrightarrow> set (carried_out tr) \<subseteq> set (given tr)"
  using at_most_once by (metis mset_subset_eqD set_mset_mset subsetI)

lemma never_twice: "start s \<Longrightarrow> run step s tr s' \<Longrightarrow> distinct (given tr) \<Longrightarrow> distinct (carried_out tr)"
proof -
  assume "start s" "run step s tr s'" and d: "distinct (given tr)"
  then obtain M where "mset (given tr) = mset (carried_out tr) + M"
    using at_most_once by (metis mset_subset_eq_exists_conv)
  moreover obtain rest where "M = mset rest" by (metis ex_mset)
  ultimately have "mset (given tr) = mset (carried_out tr @ rest)" by simp
  then show "distinct (carried_out tr)"
    using d by (metis distinct_append mset_eq_imp_distinct_iff)
qed

text \<open>Tasks that commute have the effect of their execution in the order of submission.\<close>

lemma effect_as_given:
  assumes "start s" and "run step s tr s'" and "finished s'"
    and "\<And>a b. a \<in> set (given tr) \<Longrightarrow> b \<in> set (given tr) \<Longrightarrow> f a \<circ> f b = f b \<circ> f a"
  shows "fold f (carried_out tr) x = fold f (given tr) x"
proof -
  have m: "mset (carried_out tr) = mset (given tr)" using all_once [OF assms(1-3)] .
  then have "set (carried_out tr) = set (given tr)" by (metis set_mset_mset)
  then show ?thesis using fold_multiset_equiv [OF _ m, of f] assms(4) by metis
qed

end

definition fresh_pool :: "'a pool \<Rightarrow> bool" where
  "fresh_pool p \<longleftrightarrow> (\<exists>n. p = new_pool n)"

definition pool_finished :: "'a pool \<Rightarrow> bool" where
  "pool_finished p \<longleftrightarrow> client p = Returned NoError"

lemma pool_all_gone: "pool_ok tr p \<Longrightarrow> client p = Returned NoError \<Longrightarrow> set (workers p) \<subseteq> {Gone}"
  by (simp add: pool_ok_def flip: alive_0)

lemma mset_subset_eq_add_left_trans: "A + B \<subseteq># C \<Longrightarrow> A \<subseteq># C"
  using mset_subset_eq_add_left subset_mset.order_trans by blast

interpretation tp: task_pool pool_step fresh_pool submitted executed pool_finished
proof unfold_locales
  fix s tr s'
  assume start: "fresh_pool s" and run: "run pool_step s tr s'"
  then obtain n where n: "s = new_pool n" by (auto simp: fresh_pool_def)
  have ok: "tasks_ok tr s'" and books: "pool_ok tr s'"
    using run run_tasks_ok run_pool_ok n by blast+
  show "mset (executed tr) \<subseteq># mset (submitted tr)"
    using ok by (auto simp: tasks_ok_def dest: mset_subset_eq_add_left_trans)
  show "mset (executed tr) = mset (submitted tr)" if "pool_finished s'"
    using ok running_gone pool_all_gone [OF books] that
    by (simp add: tasks_ok_def pool_finished_def)
qed

section \<open>Progress\<close>



fun workers_left :: "'a worker list \<Rightarrow> nat" where
  "workers_left [] = 0"
| "workers_left (Selecting # ws) = 1 + workers_left ws"
| "workers_left (Running t # ws) = 2 + workers_left ws"
| "workers_left (Gone # ws) = workers_left ws"



lemma workers_left_append [simp]: "workers_left (xs @ ys) = workers_left xs + workers_left ys"
  by (induction xs rule: workers_left.induct) auto




lemma spawn_simps [simp]:
  "pool_size (spawn p) = pool_size p"
  "tasks_closed (spawn p) = tasks_closed p"
  "ctx_done (spawn p) = ctx_done p"
  "client (spawn p) = client p"
  "waiter (spawn p) = waiter p"
  "Gone \<in> set (workers (spawn p)) \<longleftrightarrow> Gone \<in> set (workers p)"
  by (auto simp: spawn_def)






text \<open>Without a live worker a caller in \<open>Run\<close> is stuck.\<close>

lemma no_worker_stuck:
  assumes "client p = Submitting (Some t)" and "\<not> tasks_closed p"
    and "set (workers p) \<subseteq> {Gone}" and "waiter p = NoWaiter"
  shows "{e. \<exists>q. pool_step p e q} = {CtxCancel}"
proof -
  have "e = CtxCancel" if "pool_step p e q" for e q
    using that by cases (use assms in \<open>auto simp: may_call_def\<close>)
  then show ?thesis using ctx_cancel by blast
qed

lemma pool_size_run: "run pool_step p tr q \<Longrightarrow> pool_size q = pool_size p"
proof (induction rule: run.induct)
  case (run_snoc s es t e u)
  have "pool_size u = pool_size t" using run_snoc(2) by cases auto
  then show ?case using run_snoc by simp
qed simp

section \<open>Properties\<close>

text \<open>
  C7. \<open>UntilFinished\<close> keeps its word: when it returns without an error, the executed tasks are
  the submitted ones, each exactly once, in every run of the pool.
\<close>

theorem Pool_all_executed:
  assumes "run pool_step (new_pool n) tr p" and "client p = Returned NoError"
  shows "mset (executed tr) = mset (submitted tr)"
  by (rule tp.all_once [OF _ assms(1)]) (auto simp: fresh_pool_def pool_finished_def assms(2))

text \<open>Two workers that finish out of order.\<close>

definition pool_trace :: "nat pool_event list" where
  "pool_trace = [RunCall (Some 1), Take (Some 1), RunCall (Some 2), Take (Some 2), Done 2,
     CloseTasks, Exit, Done 1, Exit, GroupDone, Announce]"

definition pool_end :: "nat pool" where
  "pool_end = \<lparr>pool_size = of_int64 2, worker_count = 2, wait_group = 0, workers = [Gone, Gone],
     tasks_closed = True, ctx_done = False, client = Returned NoError, waiter = WaiterDone\<rparr>"

lemma val64_2: "val64 (of_int64 2) = 2"
  by (simp add: val64_of_int64 fits64_def)

lemma pool_trace_run: "run pool_step (new_pool (of_int64 2)) pool_trace pool_end"
  unfolding pool_trace_def pool_end_def new_pool_eq
  by (simp add: run_Cons_iff pool_simps spawn_def may_call_def val64_2 Cons_eq_append_conv
      append_eq_Cons_conv)

theorem Pool_all_executed_witness: "mset (executed pool_trace) = mset (submitted pool_trace)"
  by (rule Pool_all_executed [OF pool_trace_run]) (simp add: pool_end_def)

text \<open>
  C21. Bounded concurrency: a pool of positive size never runs more tasks at a time than its
  size, whatever the caller and the context do.
\<close>

theorem Pool_bounded_concurrency:
  assumes "run pool_step (new_pool n) tr p" and "0 < n"
  shows "int (length (running (workers p))) \<le> val64 n"
proof -
  have "pool_size p = n" using pool_size_run [OF assms(1)] by (simp add: new_pool_eq)
  then have "int (length (workers p)) \<le> val64 n"
    using run_pool_ok [OF assms(1)] assms(2) by (auto simp: pool_ok_def less_int64_def)
  then show ?thesis
    using running_alive [of "workers p"] alive_length [of "workers p"] by linarith
qed

theorem Pool_bounded_concurrency_witness:
  "int (length (running (workers pool_end))) \<le> val64 (of_int64 2)"
  by (rule Pool_bounded_concurrency [OF pool_trace_run]) (simp add: less_int64_def val64_2)




text \<open>
  A nil task is not ignored: it ends its worker, and in a pool of one worker the next \<open>Run\<close>
  waits for ever. So does a \<open>Run\<close> after the context was cancelled.
\<close>

theorem Pool_deadlocks:
  "(\<exists>p. run pool_step (new_pool (of_int64 1)) [RunCall None, Take None, RunCall (Some (5 :: nat))] p \<and>
      client p = Submitting (Some 5) \<and> {e. \<exists>q. pool_step p e q} = {CtxCancel}) \<and>
   (\<exists>p. run pool_step (new_pool (of_int64 1))
        [RunCall (Some 4), Take (Some 4), CtxCancel, Done 4, Exit, RunCall (Some (5 :: nat))] p \<and>
      client p = Submitting (Some 5) \<and> {e. \<exists>q. pool_step p e q} = {CtxCancel})"
proof
  let ?p = "\<lparr>pool_size = of_int64 1, worker_count = 1, wait_group = 0, workers = [Gone],
    tasks_closed = False, ctx_done = False, client = Submitting (Some (5 :: nat)), waiter = NoWaiter\<rparr>"
  have one: "val64 (of_int64 1) = 1" by (simp add: val64_of_int64 fits64_def)
  then have nonzero: "of_int64 1 \<noteq> 0" using val64_zero by (metis zero_neq_one)
  have "run pool_step (new_pool (of_int64 1)) [RunCall None, Take None, RunCall (Some 5)] ?p"
    by (simp add: run_Cons_iff pool_simps new_pool_eq spawn_def may_call_def one nonzero
        Cons_eq_append_conv append_eq_Cons_conv)
  moreover have "{e. \<exists>q. pool_step ?p e q} = {CtxCancel}"
    by (rule no_worker_stuck) simp_all
  ultimately show "\<exists>p. run pool_step (new_pool (of_int64 1)) [RunCall None, Take None, RunCall (Some 5)] p \<and>
      client p = Submitting (Some (5 :: nat)) \<and> {e. \<exists>q. pool_step p e q} = {CtxCancel}"
    by (intro exI [of _ ?p] conjI) simp_all
  have "run pool_step (new_pool (of_int64 1))
      [RunCall (Some 4), Take (Some 4), CtxCancel, Done 4, Exit, RunCall (Some 5)]
      (?p\<lparr>ctx_done := True\<rparr>)"
    by (simp add: run_Cons_iff pool_simps new_pool_eq spawn_def may_call_def one nonzero
        Cons_eq_append_conv append_eq_Cons_conv)
  moreover have "{e. \<exists>q. pool_step (?p\<lparr>ctx_done := True\<rparr>) e q} = {CtxCancel}"
    by (rule no_worker_stuck) simp_all
  ultimately show "\<exists>p. run pool_step (new_pool (of_int64 1))
        [RunCall (Some 4), Take (Some 4), CtxCancel, Done 4, Exit, RunCall (Some 5)] p \<and>
      client p = Submitting (Some (5 :: nat)) \<and> {e. \<exists>q. pool_step p e q} = {CtxCancel}"
    by (intro exI [of _ "?p\<lparr>ctx_done := True\<rparr>"] conjI) simp_all
qed

end
