(* ===== verification/Fan.thy ===== *)
theory Fan
  imports Pool
begin

text \<open>
  \<open>fan/fan.go\<close>: the fan-out of a function over a slice, on top of the pool. The tasks write
  their results through the \<open>Fan\<close>, whose slices \<open>Out\<close> replaces. The theory shows, from the
  interface of the pool alone, that after \<open>In\<close> without an error the results are those of
  the function, in the order of the input, whatever order the workers took.
\<close>

section \<open>The fan\<close>

text \<open>A task is the closure of \<open>Out\<close>: the function, the index and the item.\<close>

type_synonym ('i, 'o, 'e) fan_task = "('i \<Rightarrow> 'o \<times> 'e option) \<times> nat \<times> 'i"

record ('i, 'o, 'e) fan =
  results :: "'o list"
  errors :: "'e option list"
  fan_pool :: "('i, 'o, 'e) fan_task pool"
  todo :: "('i, 'o, 'e) fan_task list"
  fan_panic :: "go_panic option"

datatype 'c fan_option = WithContext "'c option" | WithConcurrency int64

record 'c fan_options =
  fan_ctx :: "'c option"
  concurrency :: int64

fun apply_fan_option :: "'c fan_option \<Rightarrow> 'c fan_options \<Rightarrow> 'c fan_options" where
  "apply_fan_option (WithContext c) f = f\<lparr>fan_ctx := c\<rparr>"
| "apply_fan_option (WithConcurrency n) f = f\<lparr>concurrency := n\<rparr>"

definition New_fan :: "'c \<Rightarrow> 'c fan_option list \<Rightarrow> ('i, 'o, 'e) fan" where
  "New_fan background opts =
     (let r = fold apply_fan_option opts \<lparr>fan_ctx = None, concurrency = 0\<rparr>
      in \<lparr>results = [], errors = [],
          fan_pool = snd (New_pool background [pool_option.WithContext (fan_ctx r), WithSize (concurrency r)]),
          todo = [], fan_panic = None\<rparr>)"

text \<open>The body of a task: two writes to the slices the \<open>Fan\<close> has when the task runs.\<close>

fun exec_task :: "('i, 'o, 'e) fan_task \<Rightarrow> 'o list \<times> 'e option list \<Rightarrow> 'o list \<times> 'e option list" where
  "exec_task (fn, index, item) (rs, es) = (rs[index := fst (fn item)], es[index := snd (fn item)])"

definition run_task ::
  "('i, 'o, 'e) fan_task \<Rightarrow> ('i, 'o, 'e) fan \<Rightarrow> ('i, 'o, 'e) fan" where
  "run_task t f =
     (if fst (snd t) < length (results f)
      then let (rs, es) = exec_task t (results f, errors f) in f\<lparr>results := rs, errors := es\<rparr>
      else f\<lparr>fan_panic := Some IndexOutOfRange\<rparr>)"

text \<open>The tasks that \<open>Out\<close> submits, in the order of the slice.\<close>

definition fan_tasks :: "('i \<Rightarrow> 'o \<times> 'e option) \<Rightarrow> 'i list \<Rightarrow> ('i, 'o, 'e) fan_task list" where
  "fan_tasks fn xs = map (Pair fn) (enumerate 0 xs)"

datatype ('i, 'o, 'e) fan_event =
    OutCall "'i \<Rightarrow> 'o \<times> 'e option" "'i list"
  | PoolEvent "('i, 'o, 'e) fan_task pool_event"

fun background_event :: "'a pool_event \<Rightarrow> bool" where
  "background_event (RunCall t) = False"
| "background_event CloseTasks = False"
| "background_event ClosePanic = False"
| "background_event (Done t) = False"
| "background_event e = True"

text \<open>
  \<open>Out\<close> sets the slices and then calls \<open>Run\<close> for the tasks, one after the other; \<open>In\<close> is
  \<open>UntilFinished\<close> and reads the slices when it returns.
\<close>

inductive fan_step ::
  "'o \<Rightarrow> ('i, 'o, 'e) fan \<Rightarrow> ('i, 'o, 'e) fan_event \<Rightarrow> ('i, 'o, 'e) fan \<Rightarrow> bool"
  for zero :: 'o where
  out_empty: "fan_panic f = None \<Longrightarrow> todo f = [] \<Longrightarrow> may_call (fan_pool f) \<Longrightarrow>
    fan_step zero f (OutCall fn []) f"
| out: "fan_panic f = None \<Longrightarrow> todo f = [] \<Longrightarrow> may_call (fan_pool f) \<Longrightarrow> s \<noteq> [] \<Longrightarrow>
    fan_step zero f (OutCall fn s)
      (f\<lparr>results := replicate (length s) zero, errors := replicate (length s) None,
         todo := fan_tasks fn s\<rparr>)"
| feed: "fan_panic f = None \<Longrightarrow> todo f = t # ts \<Longrightarrow> pool_step (fan_pool f) (RunCall (Some t)) p \<Longrightarrow>
    fan_step zero f (PoolEvent (RunCall (Some t))) (f\<lparr>todo := ts, fan_pool := p\<rparr>)"
| in_call: "fan_panic f = None \<Longrightarrow> todo f = [] \<Longrightarrow> e \<in> {CloseTasks, ClosePanic} \<Longrightarrow>
    pool_step (fan_pool f) e p \<Longrightarrow> fan_step zero f (PoolEvent e) (f\<lparr>fan_pool := p\<rparr>)"
| task: "fan_panic f = None \<Longrightarrow> pool_step (fan_pool f) (Done t) p \<Longrightarrow>
    fan_step zero f (PoolEvent (Done t)) (run_task t f\<lparr>fan_pool := p\<rparr>)"
| other: "fan_panic f = None \<Longrightarrow> background_event e \<Longrightarrow> pool_step (fan_pool f) e p \<Longrightarrow>
    fan_step zero f (PoolEvent e) (f\<lparr>fan_pool := p\<rparr>)"

text \<open>What \<open>In\<close> returns, once it has.\<close>

definition In_result ::
  "('i, 'o, 'e) fan \<Rightarrow> ('o list \<times> 'e option list \<times> wait_result) option" where
  "In_result f =
     (case client (fan_pool f) of Returned err \<Rightarrow> Some (results f, errors f, err) | _ \<Rightarrow> None)"

section \<open>The tasks commute\<close>

fun pool_events :: "('i, 'o, 'e) fan_event list \<Rightarrow> ('i, 'o, 'e) fan_task pool_event list" where
  "pool_events [] = []"
| "pool_events (PoolEvent e # tr) = e # pool_events tr"
| "pool_events (OutCall fn s # tr) = pool_events tr"

lemma pool_events_append [simp]: "pool_events (xs @ ys) = pool_events xs @ pool_events ys"
  by (induction xs rule: pool_events.induct) auto

lemma exec_task_commutes:
  assumes "fst (snd a) \<noteq> fst (snd b) \<or> a = b"
  shows "exec_task a \<circ> exec_task b = exec_task b \<circ> exec_task a"
proof (cases "a = b")
  case False
  obtain f i x g j y where "a = (f, i, x)" "b = (g, j, y)" by (metis prod_cases3)
  then show ?thesis using assms False by (auto intro!: ext simp: list_update_swap)
qed simp

lemma fan_tasks_index:
  "a \<in> set (fan_tasks fn s) \<Longrightarrow> fst a = fn \<and> fst (snd a) < length s \<and> snd (snd a) = s ! fst (snd a)"
  by (auto simp: fan_tasks_def in_set_enumerate_eq)

lemma fan_tasks_commute:
  "a \<in> set (fan_tasks fn s) \<Longrightarrow> b \<in> set (fan_tasks fn s) \<Longrightarrow>
    exec_task a \<circ> exec_task b = exec_task b \<circ> exec_task a"
  by (rule exec_task_commutes) (metis fan_tasks_index prod_eq_iff)

lemma fold_exec_enumerate:
  "n + length s \<le> length rs \<Longrightarrow> length es = length rs \<Longrightarrow>
    fold exec_task (map (Pair fn) (enumerate n s)) (rs, es) =
      (take n rs @ map (fst \<circ> fn) s @ drop (n + length s) rs,
       take n es @ map (snd \<circ> fn) s @ drop (n + length s) es)"
proof (induction s arbitrary: n rs es)
  case (Cons x s)
  have "take (Suc n) (rs[n := a]) = take n rs @ [a]" "take (Suc n) (es[n := b]) = take n es @ [b]" for a b
    using Cons.prems by (simp_all add: take_Suc_conv_app_nth)
  then show ?case using Cons.prems by (simp add: Cons.IH)
qed simp

lemma fold_fan_tasks:
  "fold exec_task (fan_tasks fn s) (replicate (length s) zero, replicate (length s) None) =
     (map (fst \<circ> fn) s, map (snd \<circ> fn) s)"
  using fold_exec_enumerate [of 0 s "replicate (length s) zero" "replicate (length s) None" fn]
  by (simp add: fan_tasks_def)

section \<open>One call of \<open>Out\<close>\<close>

definition out_ok ::
  "('i, 'o, 'e) fan_task pool \<Rightarrow> ('i \<Rightarrow> 'o \<times> 'e option) \<Rightarrow> 'i list \<Rightarrow> 'o \<Rightarrow>
    ('i, 'o, 'e) fan_event list \<Rightarrow> ('i, 'o, 'e) fan \<Rightarrow> bool" where
  "out_ok p fn s zero tr f \<longleftrightarrow> fresh_pool p \<and>
     ((\<forall>fn' s'. OutCall fn' s' \<in> set tr \<longrightarrow> s' = []) \<longrightarrow>
       run pool_step p (pool_events tr) (fan_pool f) \<and> fan_panic f = None \<and>
       submitted (pool_events tr) @ todo f = fan_tasks fn s \<and>
       (results f, errors f) =
         fold exec_task (executed (pool_events tr))
           (replicate (length s) zero, replicate (length s) None) \<and>
       length (results f) = length s \<and>
       (client (fan_pool f) = Awaiting \<or> (\<exists>r. client (fan_pool f) = Returned r) \<longrightarrow> todo f = []))"

lemma out_ok_task:
  assumes "fresh_pool p" and "run pool_step p tr q" and "pool_step q (Done t) q'"
    and "submitted tr @ rest = fan_tasks fn s"
  shows "fst (snd t) < length s"
proof -
  have "run pool_step p (tr @ [Done t]) q'" using assms(2,3) by (rule run_snoc)
  then have "set (executed (tr @ [Done t])) \<subseteq> set (submitted (tr @ [Done t]))"
    using tp.only_given assms(1) by blast
  then have "t \<in> set (submitted tr)" by simp
  then have "t \<in> set (fan_tasks fn s)" using assms(4) by (metis UnI1 set_append)
  then show ?thesis using fan_tasks_index by blast
qed

lemma background_books:
  "background_event e \<Longrightarrow> submitted [e] = [] \<and> executed [e] = []"
  by (cases e rule: background_event.cases) auto

lemma background_client:
  "pool_step q e q' \<Longrightarrow> background_event e \<Longrightarrow>
    client q' = Awaiting \<or> (\<exists>r. client q' = Returned r) \<Longrightarrow>
    client q = Awaiting \<or> (\<exists>r. client q = Returned r)"
  by (erule pool_step.cases) auto

lemma out_ok_step:
  assumes "out_ok p fn s zero tr f" and "fan_step zero f e f'"
  shows "out_ok p fn s zero (tr @ [e]) f'"
proof (cases "\<forall>fn' s'. OutCall fn' s' \<in> set (tr @ [e]) \<longrightarrow> s' = []")
  case False
  then show ?thesis using assms(1) by (auto simp: out_ok_def)
next
  case True
  then have ok: "fresh_pool p" "run pool_step p (pool_events tr) (fan_pool f)" "fan_panic f = None"
      "submitted (pool_events tr) @ todo f = fan_tasks fn s"
      "(results f, errors f) = fold exec_task (executed (pool_events tr))
         (replicate (length s) zero, replicate (length s) None)"
      "length (results f) = length s"
      "client (fan_pool f) = Awaiting \<or> (\<exists>r. client (fan_pool f) = Returned r) \<longrightarrow> todo f = []"
    using assms(1) by (auto simp: out_ok_def)
  note snoc = run_snoc [OF ok(2)]
  from assms(2) show ?thesis
  proof cases
    case (out s' fn')
    then show ?thesis using True by auto
  next
    case (feed t ts q)
    then show ?thesis
      using ok snoc [OF feed(5)] by (auto simp: out_ok_def pool_RunCall)
  next
    case (task t q)
    have index: "fst (snd t) < length s" using out_ok_task [OF ok(1,2) task(4) ok(4)] .
    obtain fn' i x where t: "t = (fn', i, x)" by (cases t)
    obtain us vs where q: "q = fan_pool f\<lparr>workers := us @ Selecting # vs\<rparr>"
      using task(4) by (auto simp: pool_Done)
    have g: "run_task t f = f\<lparr>results := (results f)[i := fst (fn' x)],
        errors := (errors f)[i := snd (fn' x)]\<rparr>"
      using index ok(6) by (simp add: run_task_def t)
    have "fold exec_task (executed (pool_events (tr @ [e])))
        (replicate (length s) zero, replicate (length s) None) =
        (results (run_task t f), errors (run_task t f))"
      using ok(5) [symmetric] task(1) by (simp add: g [unfolded t] t)
    moreover have "length (results (run_task t f)) = length s" using ok(6) by (simp add: g)
    ultimately show ?thesis
      using ok(1,3,4,7) snoc [OF task(4)] task(1,2) True
      by (simp add: out_ok_def g q)
  next
    case (other e' q)
    then show ?thesis
      using ok snoc [OF other(5)] background_books [of e'] background_client [OF other(5,4)]
      by (auto simp: out_ok_def)
  qed (use ok snoc in \<open>auto simp: out_ok_def\<close>)
qed

interpretation fan: history_invariant "fan_step zero" "out_ok p fn s zero" for p fn s zero
  by unfold_locales (rule out_ok_step)

definition new_fan :: "int64 \<Rightarrow> ('i, 'o, 'e) fan" where
  "new_fan n = New_fan () [WithConcurrency n]"

lemma new_fan_eq:
  "new_fan n = \<lparr>results = [], errors = [], fan_pool = new_pool n, todo = [], fan_panic = None\<rparr>"
  by (simp add: new_fan_def New_fan_def new_pool_eq New_pool_def)

lemma out_ok_start:
  "out_ok (new_pool n) fn s zero []
     (new_fan n\<lparr>results := replicate (length s) zero, errors := replicate (length s) None,
        todo := fan_tasks fn s\<rparr>)"
  by (auto simp: out_ok_def fresh_pool_def new_fan_eq new_pool_eq)

section \<open>Properties\<close>

text \<open>
  C8. Fan-out is map: after \<open>Out(s, fn)\<close> on a new \<open>Fan\<close>, when \<open>In\<close> returns without the error
  of the context, it returns the results and the errors of \<open>fn\<close> on the items, at the index of
  their item, whatever the number of workers and the order in which they took and finished
  the tasks.
\<close>

theorem Fan_is_map:
  assumes "run (fan_step zero) (new_fan n) (OutCall fn s # tr) f"
    and "\<forall>fn' s'. OutCall fn' s' \<notin> set tr" and "s \<noteq> []"
    and "In_result f = Some (rs, es, NoError)"
  shows "rs = map (fst \<circ> fn) s \<and> es = map (snd \<circ> fn) s"
proof -
  let ?f = "new_fan n\<lparr>results := replicate (length s) zero, errors := replicate (length s) None,
    todo := fan_tasks fn s\<rparr>"
  obtain g where g: "fan_step zero (new_fan n) (OutCall fn s) g" "run (fan_step zero) g tr f"
    using assms(1) by (auto simp: run_Cons_iff)
  have "g = ?f" using g(1) assms(3) by cases auto
  then have "run (fan_step zero) ?f tr f" using g(2) by simp
  from fan.history_from_start [OF this out_ok_start]
  have ok: "run pool_step (new_pool n) (pool_events tr) (fan_pool f)"
      "submitted (pool_events tr) @ todo f = fan_tasks fn s"
      "(results f, errors f) = fold exec_task (executed (pool_events tr))
         (replicate (length s) zero, replicate (length s) None)"
      "client (fan_pool f) = Awaiting \<or> (\<exists>r. client (fan_pool f) = Returned r) \<longrightarrow> todo f = []"
    using assms(2) by (auto simp: out_ok_def)
  have returned: "client (fan_pool f) = Returned NoError" "rs = results f" "es = errors f"
    using assms(4) by (auto simp: In_result_def split: client.splits)
  then have given: "submitted (pool_events tr) = fan_tasks fn s" using ok(2,4) by simp
  have "fold exec_task (executed (pool_events tr)) st = fold exec_task (submitted (pool_events tr)) st"
    for st :: "'b list \<times> 'c option list"
    by (rule tp.effect_as_given [OF _ ok(1)])
      (use returned(1) given fan_tasks_commute in \<open>auto simp: fresh_pool_def pool_finished_def\<close>)
  then show ?thesis using ok(3) given returned fold_fan_tasks [of fn s zero] by simp
qed

text \<open>Two workers; the second item is done first.\<close>

definition double :: "nat \<Rightarrow> nat \<times> string option" where
  "double x = (2 * x, if x = 5 then Some ''five'' else None)"

definition fan_trace :: "(nat, nat, string) fan_event list" where
  "fan_trace = map PoolEvent
     [RunCall (Some (double, 0, 5)), Take (Some (double, 0, 5)),
      RunCall (Some (double, 1, 7)), Take (Some (double, 1, 7)), Done (double, 1, 7),
      CloseTasks, Exit, Done (double, 0, 5), Exit, GroupDone, Announce]"

definition fan_end :: "(nat, nat, string) fan" where
  "fan_end = \<lparr>results = [10, 14], errors = [Some ''five'', None],
     fan_pool = \<lparr>pool_size = of_int64 2, worker_count = 2, wait_group = 0, workers = [Gone, Gone],
       tasks_closed = True, ctx_done = False, client = Returned NoError, waiter = WaiterDone\<rparr>,
     todo = [], fan_panic = None\<rparr>"

inductive_simps fan_OutCall: "fan_step zero f (OutCall fn s) f'"
inductive_simps fan_PoolEvent: "fan_step zero f (PoolEvent e) f'"

lemma fan_trace_run:
  "run (fan_step 0) (new_fan (of_int64 2)) (OutCall double [5, 7] # fan_trace) fan_end"
  unfolding fan_trace_def fan_end_def new_fan_eq new_pool_eq
  by (simp add: run_Cons_iff fan_OutCall fan_PoolEvent pool_simps spawn_def may_call_def val64_2
      run_task_def fan_tasks_def double_def Cons_eq_append_conv append_eq_Cons_conv)

theorem Fan_is_map_witness:
  "[10, 14] = map (fst \<circ> double) [5, 7] \<and> [Some ''five'', None] = map (snd \<circ> double) [5, 7]"
  by (rule Fan_is_map [OF fan_trace_run])
    (auto simp: fan_trace_def fan_end_def In_result_def)

end
