(* ===== verification/Balanced_Worker.thy ===== *)
theory Balanced_Worker
  imports Safe_Channel
begin

text \<open>
  \<open>pool/balanced/pool.go\<close>, the worker: its goroutine, the estimate of the work it still has,
  and the unlimited channel of tasks it reads from, whose manager is the one of
  \<open>Safe_Channel\<close>. Whatever the worker does with the channel is an event of both. The theory
  shows what the estimate is at any time, and that every accepted task is run or reported
  as unprocessed, in the order of submission.
\<close>

section \<open>Tasks and workers\<close>

text \<open>
  \<open>ETA()\<close> is asked three times: when the task is added, when it starts and when it has ended,
  and may answer differently or panic (\<open>None\<close>). \<open>Do\<close> is an event; a panic of it is recovered
  and has no effect on the worker.
\<close>

record task =
  task_id :: nat
  eta_add :: int64
  eta_start :: "int64 option"
  eta_end :: "int64 option"

text \<open>\<open>ongoing\<close>: the start, unless it is the zero time, and the estimate read then.\<close>

record ongoing =
  og_start :: "int option"
  og_eta :: int64

text \<open>
  The goroutine: before the outer \<open>select\<close>, in the inner one, in \<open>handleTw\<close> before it marks
  the start, in \<open>Do\<close>, before the estimate is corrected, before \<open>close(tw.finished)\<close>; after
  the loop before \<open>Finalize\<close>, inside it, reporting the rest, done, or dead of a panic.
\<close>

datatype worker_pc =
    Outer
  | Inner
  | Starting task
  | Doing task
  | Ending task
  | Closing task
  | Leaving
  | Finalizing
  | Reporting "task list"
  | Ended
  | Dead task

record worker =
  w_eta :: int64
  w_tasks :: "task unlimited_channel"
  w_ongoing :: ongoing
  w_pc :: worker_pc
  w_adding :: "task option"
  w_cancelled :: bool

definition newWorker :: worker where
  "newWorker =
     \<lparr>w_eta = 0, w_tasks = NewUnlimitedChannel, w_ongoing = \<lparr>og_start = None, og_eta = 0\<rparr>,
      w_pc = Outer, w_adding = None, w_cancelled = False\<rparr>"

text \<open>\<open>since\<close> is what \<open>time.Since\<close> says of the start.\<close>

definition etaWithOnGoing :: "(int \<Rightarrow> int64) \<Rightarrow> worker \<Rightarrow> int64" where
  "etaWithOnGoing since w =
     (case og_start (w_ongoing w) of
        None \<Rightarrow> w_eta w
      | Some start \<Rightarrow> w_eta w - min (og_eta (w_ongoing w)) (since start))"

text \<open>The first half of \<open>addTask\<close>; the second is the send on the channel.\<close>

definition start_add :: "task \<Rightarrow> worker \<Rightarrow> worker" where
  "start_add t w = w\<lparr>w_eta := w_eta w + eta_add t, w_adding := Some t\<rparr>"

datatype worker_event =
    Add task
  | Deliver task
  | Check
  | TakeTask task
  | TakeNil
  | Start task int
  | Do task
  | End task
  | CloseFinished task
  | LeaveInner
  | BeginFinalize
  | EndFinalize "task list"
  | Unprocessed task
  | WorkerDone
  | Manager "task chan_event"
  | CancelCtx

inductive worker_step :: "worker \<Rightarrow> worker_event \<Rightarrow> worker \<Rightarrow> bool" where
  add: "w_adding w = None \<Longrightarrow> worker_step w (Add t) (start_add t w)"
| deliver: "w_adding w = Some t \<Longrightarrow> uchan_step (w_tasks w) (Send t) c \<Longrightarrow>
    worker_step w (Deliver t) (w\<lparr>w_adding := None, w_tasks := c\<rparr>)"
| check: "w_pc w = Outer \<Longrightarrow>
    worker_step w Check (w\<lparr>w_pc := (if w_cancelled w then Leaving else Inner)\<rparr>)"
| leave_inner: "w_pc w = Inner \<Longrightarrow> w_cancelled w \<Longrightarrow> worker_step w LeaveInner (w\<lparr>w_pc := Leaving\<rparr>)"
| take_task: "w_pc w = Inner \<Longrightarrow> uchan_step (w_tasks w) (Recv t) c \<Longrightarrow>
    worker_step w (TakeTask t) (w\<lparr>w_pc := Starting t, w_tasks := c\<rparr>)"
| take_nil: "w_pc w = Inner \<Longrightarrow> uchan_step (w_tasks w) RecvClosed c \<Longrightarrow>
    worker_step w TakeNil (w\<lparr>w_pc := Outer, w_tasks := c\<rparr>)"
| start: "w_pc w = Starting t \<Longrightarrow> eta_start t = Some e \<Longrightarrow>
    worker_step w (Start t now)
      (w\<lparr>w_ongoing := \<lparr>og_start = Some now, og_eta = e\<rparr>, w_pc := Doing t\<rparr>)"
| start_panic: "w_pc w = Starting t \<Longrightarrow> eta_start t = None \<Longrightarrow>
    worker_step w (Start t now) (w\<lparr>w_pc := Dead t\<rparr>)"
| do_task: "w_pc w = Doing t \<Longrightarrow> worker_step w (Do t) (w\<lparr>w_pc := Ending t\<rparr>)"
| finish: "w_pc w = Ending t \<Longrightarrow> eta_end t = Some e \<Longrightarrow>
    worker_step w (End t)
      (w\<lparr>w_eta := w_eta w - e, w_ongoing := \<lparr>og_start = None, og_eta = 0\<rparr>, w_pc := Closing t\<rparr>)"
| finish_panic: "w_pc w = Ending t \<Longrightarrow> eta_end t = None \<Longrightarrow>
    worker_step w (End t) (w\<lparr>w_pc := Closing t\<rparr>)"
| close: "w_pc w = Closing t \<Longrightarrow> worker_step w (CloseFinished t) (w\<lparr>w_pc := Outer\<rparr>)"
| finalize: "w_pc w = Leaving \<Longrightarrow> uchan_step (w_tasks w) Cancel c \<Longrightarrow>
    worker_step w BeginFinalize (w\<lparr>w_pc := Finalizing, w_tasks := c\<rparr>)"
| finalized: "w_pc w = Finalizing \<Longrightarrow> uchan_step (w_tasks w) (Final ts) c \<Longrightarrow>
    worker_step w (EndFinalize ts) (w\<lparr>w_pc := Reporting ts, w_tasks := c\<rparr>)"
| report: "w_pc w = Reporting (t # ts) \<Longrightarrow>
    worker_step w (Unprocessed t) (w\<lparr>w_pc := Reporting ts\<rparr>)"
| worker_done: "w_pc w = Reporting [] \<Longrightarrow> worker_step w WorkerDone (w\<lparr>w_pc := Ended\<rparr>)"
| manager: "e \<in> {Tau, Finalized} \<Longrightarrow> uchan_step (w_tasks w) e c \<Longrightarrow>
    worker_step w (Manager e) (w\<lparr>w_tasks := c\<rparr>)"
| cancel_ctx: "worker_step w CancelCtx (w\<lparr>w_cancelled := True\<rparr>)"

section \<open>The events of the channel\<close>

fun chan_event_of :: "worker_event \<Rightarrow> task chan_event list" where
  "chan_event_of (Deliver t) = [Send t]"
| "chan_event_of (TakeTask t) = [Recv t]"
| "chan_event_of TakeNil = [RecvClosed]"
| "chan_event_of BeginFinalize = [Cancel]"
| "chan_event_of (EndFinalize ts) = [Final ts]"
| "chan_event_of (Manager e) = [e]"
| "chan_event_of e = []"

definition chan_events :: "worker_event list \<Rightarrow> task chan_event list" where
  "chan_events tr = concat (map chan_event_of tr)"

lemma chan_events_snoc [simp]: "chan_events (tr @ [e]) = chan_events tr @ chan_event_of e"
  by (simp add: chan_events_def)

lemma worker_chan_step:
  "worker_step w e w' \<Longrightarrow> run uchan_step (w_tasks w) (chan_event_of e) (w_tasks w')"
  by (erule worker_step.cases) (auto simp: start_add_def intro: run_single)

definition chan_ran :: "worker_event list \<Rightarrow> worker \<Rightarrow> bool" where
  "chan_ran tr w \<longleftrightarrow> run uchan_step NewUnlimitedChannel (chan_events tr) (w_tasks w)"

lemma chan_ran_step: "chan_ran tr w \<Longrightarrow> worker_step w e w' \<Longrightarrow> chan_ran (tr @ [e]) w'"
  by (auto simp: chan_ran_def intro: run_append worker_chan_step)

interpretation wc: history_invariant worker_step chan_ran
  by unfold_locales (rule chan_ran_step)

text \<open>A worker as \<open>New\<close> leaves it, with the estimate \<open>b\<close> to begin with.\<close>

definition start_worker :: "int64 \<Rightarrow> worker" where
  "start_worker b = newWorker\<lparr>w_eta := b\<rparr>"

lemma worker_chan_run: "run worker_step (start_worker b) tr w \<Longrightarrow> chan_ran tr w"
  by (rule wc.history_from_start)
    (auto simp: chan_ran_def chan_events_def start_worker_def newWorker_def)

section \<open>What becomes of the tasks\<close>

fun added :: "worker_event list \<Rightarrow> task list" where
  "added [] = []"
| "added (Add t # tr) = t # added tr"
| "added (e # tr) = added tr"

fun ended :: "worker_event list \<Rightarrow> task list" where
  "ended [] = []"
| "ended (End t # tr) = t # ended tr"
| "ended (e # tr) = ended tr"

fun closed :: "worker_event list \<Rightarrow> task list" where
  "closed [] = []"
| "closed (CloseFinished t # tr) = t # closed tr"
| "closed (e # tr) = closed tr"

fun reported :: "worker_event list \<Rightarrow> task list" where
  "reported [] = []"
| "reported (Unprocessed t # tr) = t # reported tr"
| "reported (e # tr) = reported tr"

lemma added_append [simp]: "added (xs @ ys) = added xs @ added ys"
  by (induction xs rule: added.induct) auto

lemma ended_append [simp]: "ended (xs @ ys) = ended xs @ ended ys"
  by (induction xs rule: ended.induct) auto

lemma closed_append [simp]: "closed (xs @ ys) = closed xs @ closed ys"
  by (induction xs rule: closed.induct) auto

lemma reported_append [simp]: "reported (xs @ ys) = reported xs @ reported ys"
  by (induction xs rule: reported.induct) auto

text \<open>The task in the worker's hands, and whether it has been counted as ended.\<close>

fun current :: "worker_pc \<Rightarrow> task list" where
  "current (Starting t) = [t]"
| "current (Doing t) = [t]"
| "current (Ending t) = [t]"
| "current (Closing t) = [t]"
| "current (Dead t) = [t]"
| "current p = []"

fun counted :: "worker_pc \<Rightarrow> task list" where
  "counted (Closing t) = [t]"
| "counted p = []"

text \<open>The tasks still to be reported, in the last phase.\<close>

fun unreported :: "worker_pc \<Rightarrow> task list option" where
  "unreported (Reporting ts) = Some ts"
| "unreported Ended = Some []"
| "unreported p = None"

definition ended_eta :: "task \<Rightarrow> int64" where
  "ended_eta t = (case eta_end t of None \<Rightarrow> 0 | Some e \<Rightarrow> e)"

definition tasks_flow :: "worker_event list \<Rightarrow> worker \<Rightarrow> bool" where
  "tasks_flow tr w \<longleftrightarrow>
     chan_ran tr w \<and>
     added tr = sent (chan_events tr) @ (case w_adding w of None \<Rightarrow> [] | Some t \<Rightarrow> [t]) \<and>
     received (chan_events tr) = closed tr @ current (w_pc w) \<and>
     ended tr = closed tr @ counted (w_pc w) \<and>
     (case unreported (w_pc w) of
        None \<Rightarrow> reported tr = []
      | Some ts \<Rightarrow> mgr (w_tasks w) = Drain \<and> storage (w_tasks w) = reported tr @ ts)"

definition eta_ok :: "int64 \<Rightarrow> worker_event list \<Rightarrow> worker \<Rightarrow> bool" where
  "eta_ok b tr w \<longleftrightarrow>
     w_eta w = b + sum_list (map eta_add (added tr)) - sum_list (map ended_eta (ended tr))"

lemma eta_ok_step: "eta_ok b tr w \<Longrightarrow> worker_step w e w' \<Longrightarrow> eta_ok b (tr @ [e]) w'"
  by (erule worker_step.cases)
    (auto simp: eta_ok_def start_add_def ended_eta_def algebra_simps)

lemma tasks_flow_step:
  assumes "tasks_flow tr w" and "worker_step w e w'"
  shows "tasks_flow (tr @ [e]) w'"
proof -
  have ran: "chan_ran (tr @ [e]) w'"
    using assms chan_ran_step by (auto simp: tasks_flow_def)
  note drain = drain_step
  from assms(2) show ?thesis
  proof cases
    case (deliver t c)
    then show ?thesis
      using assms(1) ran drain [OF deliver(4)] by (auto simp: tasks_flow_def split: option.splits)
  next
    case (finalized ts c)
    then have "storage (w_tasks w) = ts" "c = w_tasks w" "Safe_Channel.finalized (w_tasks w)"
      by (auto simp: uchan_Final)
    moreover have "accounted (chan_events tr) (w_tasks w)"
      using assms(1) run_accounted by (auto simp: tasks_flow_def chan_ran_def)
    ultimately show ?thesis
      using finalized assms(1) ran by (auto simp: tasks_flow_def accounted_def)
  next
    case (manager e' c)
    then show ?thesis
      using assms(1) ran drain [OF manager(4)] by (auto simp: tasks_flow_def split: option.splits)
  qed (use assms(1) ran in \<open>auto simp: tasks_flow_def start_add_def split: option.splits\<close>)
qed

interpretation we: history_invariant worker_step "eta_ok b" for b
  by unfold_locales (rule eta_ok_step)

interpretation wf: history_invariant worker_step tasks_flow
  by unfold_locales (rule tasks_flow_step)

lemma worker_eta_run: "run worker_step (start_worker b) tr w \<Longrightarrow> eta_ok b tr w"
  by (rule we.history_from_start) (auto simp: eta_ok_def start_worker_def newWorker_def)

lemma worker_flow_run: "run worker_step (start_worker b) tr w \<Longrightarrow> tasks_flow tr w"
  by (rule wf.history_from_start)
    (auto simp: tasks_flow_def chan_ran_def chan_events_def start_worker_def newWorker_def)

text \<open>The order of the tasks, from the order that the channel keeps.\<close>

lemma flow_order:
  assumes "tasks_flow tr w"
  shows "\<exists>late. added tr = closed tr @ current (w_pc w) @ storage (w_tasks w) @ late"
proof -
  have run: "run uchan_step NewUnlimitedChannel (chan_events tr) (w_tasks w)"
    using assms by (simp add: tasks_flow_def chan_ran_def)
  obtain late where "sent (chan_events tr) = accepted (chan_events tr) @ late"
    using accepted_prefix by blast
  then show ?thesis
    using assms uc.accounts [OF run] by (simp add: tasks_flow_def)
qed

lemma counted_current: "\<exists>rest. current p = counted p @ rest"
  by (cases p) auto

lemma flow_ended: "tasks_flow tr w \<Longrightarrow> \<exists>rest. added tr = ended tr @ rest"
  using flow_order [of tr w] counted_current [of "w_pc w"]
  by (auto simp: tasks_flow_def)

lemma ended_stays: "w_pc w = Ended \<Longrightarrow> worker_step w e w' \<Longrightarrow>
    w_pc w' = Ended \<and> closed [e] = [] \<and> reported [e] = []"
  by (erule worker_step.cases) (auto simp: start_add_def)

lemma ended_run: "run worker_step w es w' \<Longrightarrow> w_pc w = Ended \<Longrightarrow>
    w_pc w' = Ended \<and> closed es = [] \<and> reported es = []"
  by (induction rule: run.induct) (auto dest: ended_stays)

section \<open>Properties\<close>


text \<open>Three tasks; the context is cancelled while the first one runs.\<close>

definition sec :: "nat \<Rightarrow> task" where
  "sec n = \<lparr>task_id = n, eta_add = of_int64 (int n), eta_start = Some (of_int64 (int n)),
     eta_end = Some (of_int64 (int n))\<rparr>"

definition worker_trace :: "worker_event list" where
  "worker_trace =
     [Add (sec 1), Manager Tau, Deliver (sec 1), Manager Tau, Check, TakeTask (sec 1),
      Start (sec 1) 100, Manager Tau, Add (sec 2), Deliver (sec 2), CancelCtx, Do (sec 1),
      End (sec 1), CloseFinished (sec 1), Check, BeginFinalize, Manager Tau, Manager Tau,
      Manager Tau, Manager Finalized, EndFinalize [sec 2], Add (sec 3), Deliver (sec 3),
      Unprocessed (sec 2), WorkerDone]"

definition worker_end :: worker where
  "worker_end =
     \<lparr>w_eta = 0 + of_int64 1 + of_int64 2 - of_int64 1 + of_int64 3,
      w_tasks = \<lparr>mgr = Drain, storage = [sec 2], in_closed = False, out_closed = True,
        cancelled = True, finalized = True\<rparr>,
      w_ongoing = \<lparr>og_start = None, og_eta = 0\<rparr>, w_pc = Ended, w_adding = None,
      w_cancelled = True\<rparr>"

inductive_simps worker_step_Manager: "worker_step w (Manager e) w'"
inductive_simps worker_step_Add: "worker_step w (Add t) w'"
inductive_simps worker_step_Deliver: "worker_step w (Deliver t) w'"
inductive_simps worker_step_Check: "worker_step w Check w'"
inductive_simps worker_step_TakeTask: "worker_step w (TakeTask t) w'"
inductive_simps worker_step_Start: "worker_step w (Start t now) w'"
inductive_simps worker_step_Do: "worker_step w (Do t) w'"
inductive_simps worker_step_End: "worker_step w (End t) w'"
inductive_simps worker_step_Close: "worker_step w (CloseFinished t) w'"
inductive_simps worker_step_Begin: "worker_step w BeginFinalize w'"
inductive_simps worker_step_EndFinalize: "worker_step w (EndFinalize ts) w'"
inductive_simps worker_step_Unprocessed: "worker_step w (Unprocessed t) w'"
inductive_simps worker_step_Done: "worker_step w WorkerDone w'"
inductive_simps worker_step_Cancel: "worker_step w CancelCtx w'"

lemmas worker_simps =
  worker_step_Manager worker_step_Add worker_step_Deliver worker_step_Check worker_step_TakeTask
  worker_step_Start worker_step_Do worker_step_End worker_step_Close worker_step_Begin
  worker_step_EndFinalize worker_step_Unprocessed worker_step_Done worker_step_Cancel

lemma worker_trace_run: "run worker_step (start_worker 0) worker_trace worker_end"
  unfolding worker_trace_def worker_end_def start_worker_def newWorker_def NewUnlimitedChannel_def
  by (simp add: run_Cons_iff worker_simps uchan_simps start_add_def sec_def close_out_def)


text \<open>
  C15. The estimate of a worker is what it has outstanding: when a task's \<open>ETA()\<close> gives at its
  end what it gave when it was added, the estimate is the initial one plus the estimates of
  the added tasks from the first one that has not ended.
\<close>

theorem Worker_eta_outstanding:
  assumes "run worker_step (start_worker b) tr w"
    and "\<forall>t \<in> set (added tr). eta_end t = Some (eta_add t)"
  shows "ended tr = take (length (ended tr)) (added tr) \<and>
    w_eta w = b + sum_list (map eta_add (drop (length (ended tr)) (added tr)))"
proof -
  obtain rest where rest: "added tr = ended tr @ rest"
    using flow_ended [OF worker_flow_run [OF assms(1)]] by blast
  then have "map ended_eta (ended tr) = map eta_add (ended tr)"
    using assms(2) by (simp add: ended_eta_def)
  then have "sum_list (map ended_eta (ended tr)) = sum_list (map eta_add (ended tr))"
    by (rule arg_cong)
  moreover have "w_eta w =
      b + sum_list (map eta_add (added tr)) - sum_list (map ended_eta (ended tr))"
    using worker_eta_run [OF assms(1)] by (simp add: eta_ok_def)
  ultimately show ?thesis
    by (simp add: rest)
qed

theorem Worker_eta_outstanding_witness:
  "ended worker_trace = take (length (ended worker_trace)) (added worker_trace) \<and>
   w_eta worker_end =
     0 + sum_list (map eta_add (drop (length (ended worker_trace)) (added worker_trace)))"
  by (rule Worker_eta_outstanding [OF worker_trace_run]) (simp add: worker_trace_def sec_def)

text \<open>
  After its worker has ended a task has no outcome at all: it is taken from the sender, but
  its \<open>finished\<close> is neither closed nor sent \<open>ErrUnprocessed\<close>, so a caller of \<open>Run\<close> waits for
  ever. Only its estimate is counted.
\<close>

theorem Worker_late_task_lost:
  assumes "run worker_step (start_worker b) tr w" and "w_pc w = Ended"
    and "run worker_step w later w'"
  shows "closed later = [] \<and> reported later = [] \<and>
    w_eta w' = w_eta w + sum_list (map eta_add (added later)) \<and>
    storage (w_tasks w') = storage (w_tasks w)"
proof -
  have e: "w_pc w' = Ended" "closed later = []" "reported later = []"
    using ended_run [OF assms(3,2)] by simp_all
  have run: "run worker_step (start_worker b) (tr @ later) w'"
    by (rule run_append [OF assms(3,1)])
  have "ended (tr @ later) = closed (tr @ later)" "ended tr = closed tr"
    using worker_flow_run [OF run] worker_flow_run [OF assms(1)] e(1) assms(2)
    by (simp_all add: tasks_flow_def)
  then have w': "w_eta w' = b + (sum_list (map eta_add (added tr)) + sum_list (map eta_add (added later))) -
        sum_list (map ended_eta (ended tr))"
    and w: "w_eta w = b + sum_list (map eta_add (added tr)) - sum_list (map ended_eta (ended tr))"
    using worker_eta_run [OF run] worker_eta_run [OF assms(1)] e by (simp_all add: eta_ok_def)
  have "w_eta w' = w_eta w + sum_list (map eta_add (added later))"
    unfolding w w' by (simp add: algebra_simps)
  moreover have "storage (w_tasks w') = storage (w_tasks w)"
    using worker_flow_run [OF run] worker_flow_run [OF assms(1)] e assms(2)
    by (simp add: tasks_flow_def)
  ultimately show ?thesis using e by simp
qed

theorem Worker_late_task_lost_witness:
  "closed [Add (sec 7), Deliver (sec 7)] = [] \<and> reported [Add (sec 7), Deliver (sec 7)] = [] \<and>
   w_eta (worker_end\<lparr>w_eta := w_eta worker_end + of_int64 7\<rparr>) =
     w_eta worker_end + sum_list (map eta_add (added [Add (sec 7), Deliver (sec 7)])) \<and>
   storage (w_tasks (worker_end\<lparr>w_eta := w_eta worker_end + of_int64 7\<rparr>)) =
     storage (w_tasks worker_end)"
proof (rule Worker_late_task_lost [OF worker_trace_run])
  show "run worker_step worker_end [Add (sec 7), Deliver (sec 7)]
      (worker_end\<lparr>w_eta := w_eta worker_end + of_int64 7\<rparr>)"
    by (simp add: worker_end_def run_Cons_iff worker_step_Add worker_step_Deliver uchan_Send
        start_add_def sec_def)
qed (simp add: worker_end_def)

section \<open>A worker that is left alone\<close>

text \<open>The events that are neither a new task nor the end of the context, and a bound on them.\<close>

fun quiet :: "worker_event \<Rightarrow> bool" where
  "quiet (Add t) = False"
| "quiet CancelCtx = False"
| "quiet e = True"

fun pc_left :: "worker_pc \<Rightarrow> nat" where
  "pc_left (Starting t) = 5"
| "pc_left (Doing t) = 4"
| "pc_left (Ending t) = 3"
| "pc_left (Closing t) = 2"
| "pc_left Outer = 1"
| "pc_left p = 0"

fun mgr_left :: "manager \<Rightarrow> nat" where
  "mgr_left Top = 2"
| "mgr_left Enter = 1"
| "mgr_left m = 0"

definition worker_left :: "worker \<Rightarrow> nat" where
  "worker_left w =
     (if w_adding w = None then 0 else 11) + 8 * length (storage (w_tasks w)) +
     mgr_left (mgr (w_tasks w)) + pc_left (w_pc w)"

text \<open>The worker is in its loop, and \<open>ETA()\<close> answers when a task starts.\<close>

fun in_loop :: "worker_pc \<Rightarrow> bool" where
  "in_loop Leaving = False"
| "in_loop Finalizing = False"
| "in_loop (Reporting ts) = False"
| "in_loop Ended = False"
| "in_loop (Dead t) = False"
| "in_loop p = True"

definition hale :: "worker \<Rightarrow> bool" where
  "hale w \<longleftrightarrow> chan_ok (w_tasks w) \<and> \<not> cancelled (w_tasks w) \<and> \<not> w_cancelled w \<and> in_loop (w_pc w) \<and>
     (\<forall>t \<in> set (storage (w_tasks w)) \<union> set (current (w_pc w)) \<union> set_option (w_adding w).
        eta_start t \<noteq> None)"

lemma hale_mgr: "chan_ok c \<Longrightarrow> \<not> cancelled c \<Longrightarrow> mgr c \<in> {Top, WaitIn, Enter, Serve} \<and> \<not> out_closed c"
  by (cases "mgr c") (auto simp: chan_ok_def)

lemma idle_chan_step:
  assumes "uchan_step c e c'" and "chan_ok c" and "\<not> cancelled c"
  shows "e = Tau \<Longrightarrow> storage c' = storage c \<and> \<not> cancelled c' \<and> mgr_left (mgr c') < mgr_left (mgr c)"
    and "e = Send t \<Longrightarrow> storage c' = storage c @ [t] \<and> \<not> cancelled c' \<and> mgr_left (mgr c') \<le> 2"
    and "e = Recv t \<Longrightarrow> storage c = t # storage c' \<and> \<not> cancelled c' \<and> mgr_left (mgr c') \<le> 2"
    and "e \<noteq> Finalized" and "e \<noteq> RecvClosed"
proof -
  note m = hale_mgr [OF assms(2,3)]
  show "e = Tau \<Longrightarrow> storage c' = storage c \<and> \<not> cancelled c' \<and> mgr_left (mgr c') < mgr_left (mgr c)"
    using assms m by (cases rule: uchan_step.cases) (auto simp: chan_ok_def)
  show "e = Send t \<Longrightarrow> storage c' = storage c @ [t] \<and> \<not> cancelled c' \<and> mgr_left (mgr c') \<le> 2"
    using assms m by (cases rule: uchan_step.cases) auto
  show "e = Recv t \<Longrightarrow> storage c = t # storage c' \<and> \<not> cancelled c' \<and> mgr_left (mgr c') \<le> 2"
    using assms m by (cases rule: uchan_step.cases) auto
  show "e \<noteq> Finalized" "e \<noteq> RecvClosed"
    using assms m by (cases rule: uchan_step.cases, simp_all)+
qed

lemma hale_step:
  assumes "hale w" and "worker_step w e w'" and "e \<noteq> CancelCtx" and "\<forall>t. e = Add t \<longrightarrow> eta_start t \<noteq> None"
  shows "hale w'" and "quiet e \<Longrightarrow> worker_left w' < worker_left w"
proof -
  note h = assms(1) [unfolded hale_def]
  have "hale w' \<and> (quiet e \<longrightarrow> worker_left w' < worker_left w)"
    using assms(2)
  proof cases
    case (deliver t c)
    have "chan_ok c" by (rule chan_ok_step [OF _ deliver(4)]) (use h in auto)
    then show ?thesis
      using deliver(1-3) h idle_chan_step(2) [OF deliver(4) _ _ refl]
      by (auto simp: hale_def worker_left_def)
  next
    case (take_task t c)
    have "chan_ok c" by (rule chan_ok_step [OF _ take_task(4)]) (use h in auto)
    then show ?thesis
      using take_task(1-3) h idle_chan_step(3) [OF take_task(4) _ _ refl]
      by (auto simp: hale_def worker_left_def)
  next
    case (manager e' c)
    have ok: "chan_ok c" by (rule chan_ok_step [OF _ manager(4)]) (use h manager(3) in auto)
    have "e' = Tau" using manager(3) idle_chan_step(4) [OF manager(4)] h by auto
    then show ?thesis
      using manager(1,2) h ok idle_chan_step(1) [OF manager(4)]
      by (auto simp: hale_def worker_left_def)
  next
    case (take_nil c)
    then show ?thesis using idle_chan_step(5) [OF take_nil(4)] h by auto
  qed (use assms(3,4) h in \<open>auto simp: hale_def worker_left_def start_add_def\<close>)
  then show "hale w'" "quiet e \<Longrightarrow> worker_left w' < worker_left w" by auto
qed

lemma hale_run:
  assumes "run worker_step w es w'" and "hale w" and "list_all quiet es"
  shows "hale w' \<and> length es + worker_left w' \<le> worker_left w"
  using assms
proof (induction rule: run.induct)
  case (run_snoc w es u e v)
  have "hale u" "length es + worker_left u \<le> worker_left w" "quiet e" using run_snoc by simp_all
  then show ?case using hale_step [of u e v] run_snoc.hyps(2) by (cases e) fastforce+
qed simp

lemma hale_moves:
  assumes "hale w" and "w_adding w \<noteq> None \<or> w_pc w \<noteq> Inner \<or> storage (w_tasks w) \<noteq> []"
  shows "\<exists>e w'. quiet e \<and> worker_step w e w'"
proof (cases "w_pc w")
  case Inner
  note h = assms(1) [unfolded hale_def]
  show ?thesis
  proof (cases "mgr (w_tasks w)")
    case Serve
    then obtain t ts where "storage (w_tasks w) = t # ts"
      using h by (cases "storage (w_tasks w)") (auto simp: chan_ok_def)
    then have "quiet (TakeTask t) \<and> worker_step w (TakeTask t)
        (w\<lparr>w_pc := Starting t, w_tasks := w_tasks w\<lparr>storage := ts, mgr := Top\<rparr>\<rparr>)"
      using Inner Serve h hale_mgr by (auto intro!: take_task serve_out)
    then show ?thesis by blast
  next
    case WaitIn
    then have "storage (w_tasks w) = []" using h by (simp add: chan_ok_def)
    then obtain t where "w_adding w = Some t" using assms(2) Inner by auto
    moreover have "uchan_step (w_tasks w) (Send t) (takeIn (Some t) manager.Enter (w_tasks w))"
      by (rule wait_in [OF WaitIn]) (use h in \<open>simp add: chan_ok_def\<close>)
    ultimately have "worker_step w (Deliver t)
        (w\<lparr>w_adding := None, w_tasks := takeIn (Some t) manager.Enter (w_tasks w)\<rparr>)"
      by (rule deliver)
    then show ?thesis using quiet.simps by blast
  next
    case Top
    then obtain c where "uchan_step (w_tasks w) Tau c" using top_empty top_full by blast
    then have "worker_step w (Manager Tau) (w\<lparr>w_tasks := c\<rparr>)" by (intro manager) simp_all
    then show ?thesis using quiet.simps by blast
  next
    case Enter
    then obtain c where "uchan_step (w_tasks w) Tau c" using enter_empty enter_full by blast
    then have "worker_step w (Manager Tau) (w\<lparr>w_tasks := c\<rparr>)" by (intro manager) simp_all
    then show ?thesis using quiet.simps by blast
  qed (use h hale_mgr in \<open>auto dest: hale_mgr\<close>)
next
  case (Starting t)
  then obtain e where "eta_start t = Some e" using assms(1) by (auto simp: hale_def)
  then show ?thesis using start [OF Starting, of e 0] quiet.simps by blast
next
  case (Ending t)
  then show ?thesis
    using finish [OF Ending] finish_panic [OF Ending] quiet.simps by (cases "eta_end t") blast+
qed (use assms(1) check do_task close quiet.simps in \<open>auto simp: hale_def; blast\<close>)+

lemma sent_accepted: "Finalized \<notin> set tr \<Longrightarrow> sent tr = accepted tr"
  by (induction tr rule: accepted.induct) auto

lemma rest_closed:
  assumes "tasks_flow tr w" and "hale w" and "w_adding w = None" and "w_pc w = Inner"
    and "storage (w_tasks w) = []"
  shows "closed tr = added tr"
proof -
  have "accounted (chan_events tr) (w_tasks w)"
    using assms(1) run_accounted by (auto simp: tasks_flow_def chan_ran_def)
  moreover have "mgr (w_tasks w) \<noteq> Drain"
    using assms(2) hale_mgr [of "w_tasks w"] by (auto simp: hale_def)
  ultimately show ?thesis
    using assms sent_accepted [of "chan_events tr"] by (auto simp: tasks_flow_def accounted_def)
qed

lemma quiet_added: "list_all quiet es \<Longrightarrow> added es = []"
  by (induction es rule: added.induct) auto

lemma hale_from_start:
  assumes "run worker_step (start_worker b) tr w" and "CancelCtx \<notin> set tr"
    and "\<forall>t \<in> set (added tr). eta_start t \<noteq> None"
  shows "hale w"
  using assms
proof (induction "start_worker b" tr w rule: run.induct)
  case run_Nil
  show ?case by (simp add: hale_def start_worker_def newWorker_def chan_ok_def NewUnlimitedChannel_def)
next
  case (run_snoc es u e v)
  then show ?case using hale_step(1) [of u e v] by auto
qed

text \<open>
  C14. A worker that is left alone finishes: when its context is not done and \<open>ETA()\<close> answers at the
  start of every task, it can go on without new tasks for at most \<open>worker_left\<close> events, and one
  is possible until \<open>finished\<close> has been closed for every task that was added, in their order.
\<close>

theorem Worker_finishes:
  assumes "run worker_step (start_worker b) tr w" and "CancelCtx \<notin> set tr"
    and "\<forall>t \<in> set (added tr). eta_start t \<noteq> None"
    and "run worker_step w es w'" and "list_all quiet es"
  shows "length es \<le> worker_left w \<and>
    ((\<exists>e w''. quiet e \<and> worker_step w' e w'') \<or> closed (tr @ es) = added tr)"
proof -
  have hale: "hale w'" "length es \<le> worker_left w"
    using hale_run [OF assms(4) hale_from_start [OF assms(1-3)] assms(5)] by simp_all
  have flow: "tasks_flow (tr @ es) w'"
    by (rule worker_flow_run [OF run_append [OF assms(4,1)]])
  show ?thesis
  proof (cases "w_adding w' = None \<and> w_pc w' = Inner \<and> storage (w_tasks w') = []")
    case True
    then have "closed (tr @ es) = added (tr @ es)" using rest_closed [OF flow hale(1)] by blast
    then show ?thesis using hale(2) quiet_added [OF assms(5)] by simp
  next
    case False
    then show ?thesis using hale(2) hale_moves [OF hale(1)] by blast
  qed
qed

definition alone_trace :: "worker_event list" where
  "alone_trace =
     [Manager Tau, Deliver (sec 1), Manager Tau, Check, TakeTask (sec 1), Start (sec 1) 100,
      Do (sec 1), End (sec 1), CloseFinished (sec 1), Check, Manager Tau]"

definition alone_end :: worker where
  "alone_end = (start_worker (of_int64 0 + of_int64 1 - of_int64 1))\<lparr>w_pc := Inner,
     w_tasks := NewUnlimitedChannel\<lparr>mgr := WaitIn\<rparr>\<rparr>"

lemma alone_run:
  "run worker_step (start_worker 0) [Add (sec 1)] (start_add (sec 1) (start_worker 0))"
  "run worker_step (start_add (sec 1) (start_worker 0)) alone_trace alone_end"
  unfolding alone_trace_def alone_end_def start_worker_def newWorker_def NewUnlimitedChannel_def
  by (simp_all add: run_Cons_iff worker_simps uchan_simps start_add_def sec_def)

theorem Worker_finishes_witness:
  "length alone_trace \<le> worker_left (start_add (sec 1) (start_worker 0)) \<and>
   ((\<exists>e w. quiet e \<and> worker_step alone_end e w) \<or>
    closed ([Add (sec 1)] @ alone_trace) = added [Add (sec 1)])"
proof (rule Worker_finishes [OF alone_run(1) _ _ alone_run(2)])
  show "\<forall>t \<in> set (added [Add (sec 1)]). eta_start t \<noteq> None" by (simp add: sec_def)
  show "list_all quiet alone_trace" by (simp add: alone_trace_def)
qed simp

end
