(* ===== verification/Balanced_Pool.thy ===== *)
theory Balanced_Pool
  imports Balanced_Worker
begin

text \<open>
  \<open>pool/balanced/pool.go\<close>, the pool: its workers, the tree that orders them by their
  estimates, \<open>New\<close>, \<open>RunAsync\<close> and \<open>Run\<close>. The tree is that of the package GoLLRB, which is a
  parameter: a record of the operations the pool calls, with what the pool relies on as the
  predicate \<open>llrb\<close> over the in-order list of its items. \<open>RunAsync\<close> holds the pool's lock, so
  at most one call is under way, but the workers go on meanwhile. The theory shows that every
  worker stays in the tree, when \<open>RunAsync\<close> fails, and how even the load is.
\<close>

section \<open>The tree\<close>

record 't tree_ops =
  t_new :: 't
  t_min :: "'t \<Rightarrow> nat option"
  t_delete_min :: "'t \<Rightarrow> 't"
  t_insert :: "(nat \<Rightarrow> nat \<Rightarrow> bool) \<Rightarrow> nat \<Rightarrow> 't \<Rightarrow> 't"
  t_replace :: "(nat \<Rightarrow> nat \<Rightarrow> bool) \<Rightarrow> nat \<Rightarrow> 't \<Rightarrow> 't"

text \<open>
  The documented behaviour of \<open>New\<close>, \<open>Min\<close>, \<open>DeleteMin\<close>, \<open>InsertNoReplace\<close> and
  \<open>ReplaceOrInsert\<close>: insertion keeps the items, and the order when the tree is ordered by the
  keys of the moment; \<open>ReplaceOrInsert\<close> of a new largest key appends it.
\<close>

definition llrb :: "'t tree_ops \<Rightarrow> ('t \<Rightarrow> nat list) \<Rightarrow> bool" where
  "llrb ops inorder \<longleftrightarrow>
     inorder (t_new ops) = [] \<and>
     (\<forall>t. t_min ops t = (case inorder t of [] \<Rightarrow> None | i # _ \<Rightarrow> Some i)) \<and>
     (\<forall>t. inorder (t_delete_min ops t) = tl (inorder t)) \<and>
     (\<forall>t i (f :: nat \<Rightarrow> int64).
        mset (inorder (t_insert ops (\<lambda>a b. f a < f b) i t)) = add_mset i (mset (inorder t)) \<and>
        (sorted (map f (inorder t)) \<longrightarrow>
          sorted (map f (inorder (t_insert ops (\<lambda>a b. f a < f b) i t))))) \<and>
     (\<forall>t i (f :: nat \<Rightarrow> int64). sorted (map f (inorder t)) \<longrightarrow> (\<forall>j \<in> set (inorder t). f j < f i) \<longrightarrow>
        inorder (t_replace ops (\<lambda>a b. f a < f b) i t) = inorder t @ [i])"

section \<open>The pool\<close>

datatype run_error = ErrWorkerNotFound | ErrWillTakeLonger

datatype 'c PoolOption = WithContext "'c option"

fun apply_PoolOption :: "'c PoolOption \<Rightarrow> 'c option \<Rightarrow> 'c option" where
  "apply_PoolOption (WithContext c) ctx = (if c \<noteq> None then c else ctx)"

datatype RunOption = WithMaxDelay int64

text \<open>\<open>maxDelay\<close> after all options; 0 when there are none.\<close>

fun apply_RunOption :: "RunOption \<Rightarrow> int64 \<Rightarrow> int64" where
  "apply_RunOption (WithMaxDelay d) maxDelay = d"

text \<open>No call, or one that waits for the send to worker \<open>i\<close>.\<close>

datatype bpool_pc = Free | Sending nat

record 't bpool =
  bp_workers :: "nat \<Rightarrow> worker"
  bp_tree :: 't
  bp_pc :: bpool_pc

definition Less :: "(nat \<Rightarrow> worker) \<Rightarrow> nat \<Rightarrow> nat \<Rightarrow> bool" where
  "Less ws i j \<longleftrightarrow> w_eta (ws i) < w_eta (ws j)"

text \<open>\<open>time.Duration(i) * time.Microsecond\<close>.\<close>

definition micros :: "nat \<Rightarrow> int64" where
  "micros i = of_int64 (int i * 1000)"

text \<open>One turn of the loop of \<open>New\<close>, and \<open>New\<close> with the context of its options.\<close>

definition add_worker :: "'t tree_ops \<Rightarrow> nat \<Rightarrow> 't bpool \<Rightarrow> 't bpool" where
  "add_worker ops i p =
     (let ws = (bp_workers p)(i := newWorker\<lparr>w_eta := micros i\<rparr>)
      in p\<lparr>bp_workers := ws, bp_tree := t_replace ops (Less ws) i (bp_tree p)\<rparr>)"

definition New_bpool :: "'t tree_ops \<Rightarrow> 'c \<Rightarrow> int \<Rightarrow> 'c PoolOption list \<Rightarrow> 'c \<times> 't bpool" where
  "New_bpool ops background workerCount opts =
     (case fold apply_PoolOption opts None of None \<Rightarrow> background | Some c \<Rightarrow> c,
      fold (add_worker ops) [0..<nat workerCount]
        \<lparr>bp_workers = \<lambda>_. newWorker, bp_tree = t_new ops, bp_pc = Free\<rparr>)"

datatype bpool_event =
    Fail run_error
  | Choose nat task
  | Return nat
  | Work nat worker_event

text \<open>
  \<open>choose\<close> is \<open>RunAsync\<close> up to the send of \<open>addTask\<close>; the send is the event \<open>Deliver\<close> of the
  worker, after which \<open>return\<close> is the rest.
\<close>

inductive bpool_step ::
  "'t tree_ops \<Rightarrow> 't bpool \<Rightarrow> bpool_event \<Rightarrow> 't bpool \<Rightarrow> bool"
  for ops :: "'t tree_ops" where
  no_worker: "bp_pc p = Free \<Longrightarrow> t_min ops (bp_tree p) = None \<Longrightarrow>
    bpool_step ops p (Fail ErrWorkerNotFound) p"
| too_long: "bp_pc p = Free \<Longrightarrow> t_min ops (bp_tree p) = Some i \<Longrightarrow>
    maxDelay = fold apply_RunOption options 0 \<Longrightarrow> maxDelay \<noteq> 0 \<Longrightarrow>
    maxDelay < etaWithOnGoing since (bp_workers p i) \<Longrightarrow>
    bpool_step ops p (Fail ErrWillTakeLonger) p"
| choose: "bp_pc p = Free \<Longrightarrow> t_min ops (bp_tree p) = Some i \<Longrightarrow>
    maxDelay = fold apply_RunOption options 0 \<Longrightarrow>
    maxDelay = 0 \<or> \<not> maxDelay < etaWithOnGoing since (bp_workers p i) \<Longrightarrow>
    bpool_step ops p (Choose i t)
      (p\<lparr>bp_workers := (bp_workers p)(i := start_add t (bp_workers p i)), bp_pc := Sending i\<rparr>)"
| return: "bp_pc p = Sending i \<Longrightarrow> w_adding (bp_workers p i) = None \<Longrightarrow>
    bpool_step ops p (Return i)
      (p\<lparr>bp_tree := t_insert ops (Less (bp_workers p)) i (t_delete_min ops (bp_tree p)),
         bp_pc := Free\<rparr>)"
| work: "worker_step (bp_workers p i) e w \<Longrightarrow> (\<forall>t. e \<noteq> Add t) \<Longrightarrow>
    bpool_step ops p (Work i e) (p\<lparr>bp_workers := (bp_workers p)(i := w)\<rparr>)"

text \<open>\<open>Run\<close> returns what the channel of the task says: nil, closed after the task was run, or
  \<open>ErrUnprocessed\<close>; \<open>None\<close> as long as the worker has not said anything.\<close>

datatype run_result = Completed | ErrUnprocessed

fun Run_result :: "nat \<Rightarrow> task \<Rightarrow> bpool_event list \<Rightarrow> run_result option" where
  "Run_result i t [] = None"
| "Run_result i t (Work j (CloseFinished u) # tr) =
     (if j = i \<and> u = t then Some Completed else Run_result i t tr)"
| "Run_result i t (Work j (Unprocessed u) # tr) =
     (if j = i \<and> u = t then Some ErrUnprocessed else Run_result i t tr)"
| "Run_result i t (e # tr) = Run_result i t tr"

section \<open>The workers in the pool\<close>

fun worker_event_of :: "nat \<Rightarrow> bpool_event \<Rightarrow> worker_event list" where
  "worker_event_of i (Choose j t) = (if j = i then [Add t] else [])"
| "worker_event_of i (Work j e) = (if j = i then [e] else [])"
| "worker_event_of i e = []"

definition worker_events :: "nat \<Rightarrow> bpool_event list \<Rightarrow> worker_event list" where
  "worker_events i tr = concat (map (worker_event_of i) tr)"

lemma worker_events_snoc [simp]:
  "worker_events i (tr @ [e]) = worker_events i tr @ worker_event_of i e"
  by (simp add: worker_events_def)

definition base_eta :: "nat \<Rightarrow> nat \<Rightarrow> int64" where
  "base_eta n i = (if i < n then micros i else 0)"

text \<open>The pool's part in what its workers do is that of one caller of each.\<close>

definition workers_ok :: "nat \<Rightarrow> bpool_event list \<Rightarrow> 't bpool \<Rightarrow> bool" where
  "workers_ok n tr p \<longleftrightarrow>
     (\<forall>i. run worker_step (start_worker (base_eta n i)) (worker_events i tr) (bp_workers p i)) \<and>
     (\<forall>i. w_adding (bp_workers p i) \<noteq> None \<longrightarrow> bp_pc p = Sending i)"

lemma worker_adding:
  "worker_step w e w' \<Longrightarrow> (\<forall>t. e \<noteq> Add t) \<Longrightarrow> w_adding w' \<noteq> None \<Longrightarrow> w_adding w \<noteq> None"
  by (erule worker_step.cases) auto

lemma workers_ok_step:
  assumes "workers_ok n tr p" and "bpool_step ops p e p'"
  shows "workers_ok n (tr @ [e]) p'"
  using assms(2)
proof cases
  case (choose i maxDelay options since t)
  have "w_adding (bp_workers p i) = None"
    using assms(1) choose(3) by (cases "w_adding (bp_workers p i)") (auto simp: workers_ok_def)
  then have "worker_step (bp_workers p i) (Add t) (start_add t (bp_workers p i))"
    by (rule add)
  then show ?thesis
    using assms(1) choose by (auto simp: workers_ok_def intro: run_snoc)
next
  case (work i e' w)
  then show ?thesis
    using assms(1) worker_adding [OF work(3,4)]
    by (auto simp: workers_ok_def intro: run_snoc)
qed (use assms(1) in \<open>auto simp: workers_ok_def\<close>)

interpretation bw: history_invariant "bpool_step ops" "workers_ok n" for ops n
  by unfold_locales (rule workers_ok_step)

section \<open>\<open>New\<close>\<close>

lemma Less_key: "Less ws = (\<lambda>a b. (\<lambda>i. w_eta (ws i)) a < (\<lambda>i. w_eta (ws i)) b)"
  by (simp add: Less_def fun_eq_iff)

lemma llrb_laws:
  assumes "llrb ops inorder"
  shows "inorder (t_new ops) = []"
    and "t_min ops t = (case inorder t of [] \<Rightarrow> None | i # _ \<Rightarrow> Some i)"
    and "inorder (t_delete_min ops t) = tl (inorder t)"
    and "mset (inorder (t_insert ops (Less ws) i t)) = add_mset i (mset (inorder t))"
    and "sorted (map (\<lambda>i. w_eta (ws i)) (inorder t)) \<Longrightarrow>
      sorted (map (\<lambda>i. w_eta (ws i)) (inorder (t_insert ops (Less ws) i t)))"
    and "sorted (map (\<lambda>i. w_eta (ws i)) (inorder t)) \<Longrightarrow>
      \<forall>j \<in> set (inorder t). w_eta (ws j) < w_eta (ws i) \<Longrightarrow>
      inorder (t_replace ops (Less ws) i t) = inorder t @ [i]"
proof -
  have l: "inorder (t_new ops) = []"
    "t_min ops t = (case inorder t of [] \<Rightarrow> None | i # _ \<Rightarrow> Some i)"
    "inorder (t_delete_min ops t) = tl (inorder t)"
    "mset (inorder (t_insert ops (\<lambda>a b. f a < f b) i t)) = add_mset i (mset (inorder t))"
    "sorted (map f (inorder t)) \<Longrightarrow> sorted (map f (inorder (t_insert ops (\<lambda>a b. f a < f b) i t)))"
    "sorted (map f (inorder t)) \<Longrightarrow> \<forall>j \<in> set (inorder t). f j < f i \<Longrightarrow>
      inorder (t_replace ops (\<lambda>a b. f a < f b) i t) = inorder t @ [i]"
    for f :: "nat \<Rightarrow> int64"
    using assms unfolding llrb_def by (elim conjE, simp)+
  show "inorder (t_new ops) = []"
    and "t_min ops t = (case inorder t of [] \<Rightarrow> None | i # _ \<Rightarrow> Some i)"
    and "inorder (t_delete_min ops t) = tl (inorder t)"
    by (rule l)+
  show "mset (inorder (t_insert ops (Less ws) i t)) = add_mset i (mset (inorder t))"
    and "sorted (map (\<lambda>i. w_eta (ws i)) (inorder t)) \<Longrightarrow>
      sorted (map (\<lambda>i. w_eta (ws i)) (inorder (t_insert ops (Less ws) i t)))"
    and "sorted (map (\<lambda>i. w_eta (ws i)) (inorder t)) \<Longrightarrow>
      \<forall>j \<in> set (inorder t). w_eta (ws j) < w_eta (ws i) \<Longrightarrow>
      inorder (t_replace ops (Less ws) i t) = inorder t @ [i]"
    unfolding Less_key by (rule l; assumption)+
qed

text \<open>So few workers that the initial estimates do not wrap around.\<close>

definition few :: "nat \<Rightarrow> bool" where
  "few n \<longleftrightarrow> int n * 1000 < 2 ^ 63"

lemma val64_micros: "few n \<Longrightarrow> i < n \<Longrightarrow> val64 (micros i) = int i * 1000"
  by (auto simp: micros_def few_def fits64_def intro!: val64_of_int64)

lemma start_worker_simps [simp]:
  "w_eta (start_worker b) = b" "w_adding (start_worker b) = None" "start_worker 0 = newWorker"
  by (simp_all add: start_worker_def newWorker_def)

definition new_bpool :: "'t tree_ops \<Rightarrow> nat \<Rightarrow> 't bpool" where
  "new_bpool ops n = snd (New_bpool ops () (int n) [])"

lemma new_bpool_rec:
  "new_bpool ops 0 = \<lparr>bp_workers = \<lambda>_. newWorker, bp_tree = t_new ops, bp_pc = Free\<rparr>"
  "new_bpool ops (Suc n) = add_worker ops n (new_bpool ops n)"
  by (simp_all add: new_bpool_def New_bpool_def del: of_nat_Suc)

lemma few_Suc: "few (Suc n) \<Longrightarrow> few n"
  by (simp add: few_def)

lemma new_bpool_spec:
  assumes "llrb ops inorder" and "few n"
  shows "bp_workers (new_bpool ops n) = (\<lambda>i. start_worker (base_eta n i)) \<and>
    inorder (bp_tree (new_bpool ops n)) = [0..<n] \<and> bp_pc (new_bpool ops n) = Free"
  using assms(2)
proof (induction n)
  case 0
  show ?case by (simp add: new_bpool_rec llrb_laws [OF assms(1)] base_eta_def)
next
  case (Suc n)
  let ?p = "new_bpool ops n" and ?ws = "\<lambda>i. start_worker (base_eta (Suc n) i)"
  have IH: "bp_workers ?p = (\<lambda>i. start_worker (base_eta n i))" "inorder (bp_tree ?p) = [0..<n]"
      "bp_pc ?p = Free"
    using Suc few_Suc by blast+
  have ws: "(bp_workers ?p)(n := newWorker\<lparr>w_eta := micros n\<rparr>) = ?ws"
    by (auto simp: IH fun_eq_iff base_eta_def start_worker_def)
  have less: "w_eta (?ws i) < w_eta (?ws j)" if "i < j" "j \<le> n" for i j
    using that val64_micros [OF Suc.prems] by (simp add: base_eta_def less_int64_def)
  have "sorted (map (\<lambda>i. w_eta (?ws i)) [0..<n])"
    using less by (auto simp: sorted_iff_nth_mono_less intro!: less_imp_le simp del: start_worker_simps)
  then have "inorder (t_replace ops (Less ?ws) n (bp_tree ?p)) = [0..<n] @ [n]"
    using llrb_laws(6) [OF assms(1), of ?ws "bp_tree ?p" n] less IH by (simp del: start_worker_simps)
  then show ?case
    using IH(3) by (simp add: new_bpool_rec add_worker_def ws Let_def)
qed

lemma workers_ok_new: "llrb ops inorder \<Longrightarrow> few n \<Longrightarrow> workers_ok n [] (new_bpool ops n)"
  by (simp add: workers_ok_def new_bpool_spec worker_events_def)

section \<open>The tree keeps every worker\<close>

definition tree_ok :: "('t \<Rightarrow> nat list) \<Rightarrow> nat \<Rightarrow> 't bpool \<Rightarrow> bool" where
  "tree_ok inorder n p \<longleftrightarrow>
     mset (inorder (bp_tree p)) = mset [0..<n] \<and>
     (\<forall>i. bp_pc p = Sending i \<longrightarrow> (\<exists>rest. inorder (bp_tree p) = i # rest))"

lemma llrb_min:
  "llrb ops inorder \<Longrightarrow> t_min ops t = Some i \<longleftrightarrow> (\<exists>rest. inorder t = i # rest)"
  "llrb ops inorder \<Longrightarrow> t_min ops t = None \<longleftrightarrow> inorder t = []"
  by (auto simp: llrb_laws(2) split: list.splits)

lemma tree_ok_step:
  assumes "llrb ops inorder" and "tree_ok inorder n p" and "bpool_step ops p e p'"
  shows "tree_ok inorder n p'"
  using assms(3)
proof cases
  case (choose i maxDelay options since t)
  then show ?thesis using assms(2) llrb_min(1) [OF assms(1)] by (auto simp: tree_ok_def)
next
  case (return i)
  then obtain rest where "inorder (bp_tree p) = i # rest"
    using assms(2) by (auto simp: tree_ok_def)
  then show ?thesis
    using return assms(2) llrb_laws(3,4) [OF assms(1)] by (simp add: tree_ok_def)
qed (use assms(2) in \<open>auto simp: tree_ok_def\<close>)

lemma tree_ok_run:
  assumes "llrb ops inorder" and "few n" and "run (bpool_step ops) (new_bpool ops n) tr p"
  shows "tree_ok inorder n p"
  using assms(3)
proof (induction tr arbitrary: p rule: rev_induct)
  case Nil
  then show ?case
    using new_bpool_spec [OF assms(1,2)] by (simp add: tree_ok_def)
next
  case (snoc e tr)
  then obtain q where q: "run (bpool_step ops) (new_bpool ops n) tr q" "bpool_step ops q e p"
    by (auto simp: run_snoc_iff)
  show ?case by (rule tree_ok_step [OF assms(1) snoc.IH [OF q(1)] q(2)])
qed

lemma tree_ok_member: "tree_ok inorder n p \<Longrightarrow> i \<in> set (inorder (bp_tree p)) \<longleftrightarrow> i < n"
  unfolding tree_ok_def by (metis atLeastLessThan_iff set_mset_mset set_upt zero_le)

text \<open>The tasks handed out, in order.\<close>

fun chosen :: "bpool_event list \<Rightarrow> task list" where
  "chosen [] = []"
| "chosen (Choose i t # tr) = t # chosen tr"
| "chosen (e # tr) = chosen tr"

lemma chosen_append [simp]: "chosen (xs @ ys) = chosen xs @ chosen ys"
  by (induction xs rule: chosen.induct) auto

text \<open>Every task handed out went to exactly one worker.\<close>

definition handed_to :: "nat \<Rightarrow> bpool_event list \<Rightarrow> task list" where
  "handed_to n tr = concat (map (\<lambda>i. added (worker_events i tr)) [0..<n])"

lemma mset_concat_update:
  assumes "i < n" and "g i = f i @ [x]" and "\<And>j. j \<noteq> i \<Longrightarrow> g j = f j"
  shows "mset (concat (map g [0..<n])) = add_mset x (mset (concat (map f [0..<n])))"
  using assms(1)
proof (induction n)
  case (Suc n)
  show ?case
  proof (cases "i = n")
    case True
    then have "map g [0..<n] = map f [0..<n]" using assms(3) by simp
    then show ?thesis using True assms(2) by (simp del: map_eq_conv)
  next
    case False
    then show ?thesis using Suc assms(3) by simp
  qed
qed simp

lemma not_add: "(\<forall>t. e \<noteq> Add t) \<Longrightarrow> added [e] = []"
  by (cases e) auto

lemma handed_step:
  assumes "llrb ops inorder" and "tree_ok inorder n p" and "bpool_step ops p e p'"
    and "mset (handed_to n tr) = mset (chosen tr)"
  shows "mset (handed_to n (tr @ [e])) = mset (chosen (tr @ [e]))"
  using assms(3)
proof cases
  case (choose i maxDelay options since t)
  have "i < n"
    using choose(4) llrb_min(1) [OF assms(1)] tree_ok_member [OF assms(2)] by force
  then show ?thesis
    using choose assms(4)
      mset_concat_update [of i n "\<lambda>i. added (worker_events i (tr @ [e]))" "\<lambda>i. added (worker_events i tr)" t]
    by (simp add: handed_to_def)
next
  case (work i e' w)
  have "added (worker_events j (tr @ [e])) = added (worker_events j tr)" for j
    using work(1) not_add [OF work(4)] by simp
  then show ?thesis using assms(4) work by (simp add: handed_to_def)
qed (use assms(4) in \<open>simp_all add: handed_to_def\<close>)

lemma handed_run:
  assumes "llrb ops inorder" and "few n" and "run (bpool_step ops) (new_bpool ops n) tr p"
  shows "mset (handed_to n tr) = mset (chosen tr)"
  using assms(3)
proof (induction tr arbitrary: p rule: rev_induct)
  case Nil
  show ?case by (simp add: handed_to_def worker_events_def)
next
  case (snoc e tr)
  then obtain q where q: "run (bpool_step ops) (new_bpool ops n) tr q" "bpool_step ops q e p"
    by (auto simp: run_snoc_iff)
  show ?case
    by (rule handed_step [OF assms(1) tree_ok_run [OF assms(1,2) q(1)] q(2) snoc.IH [OF q(1)]])
qed

lemma mset_concat_mono:
  "(\<And>i. i < n \<Longrightarrow> mset (g i) \<subseteq># mset (f i)) \<Longrightarrow>
    mset (concat (map g [0..<n])) \<subseteq># mset (concat (map f [0..<n]))"
  by (induction n) (auto intro: subset_mset.add_mono)

section \<open>How even the load is\<close>

definition load :: "task list \<Rightarrow> int" where
  "load ts = sum_list (map (val64 \<circ> eta_add) ts)"

text \<open>
  Estimates between 0 and \<open>M\<close>, so few that no sum of them wraps around, and no task that ends
  meanwhile, whose worker would keep its place in the tree.
\<close>

definition modest :: "nat \<Rightarrow> int64 \<Rightarrow> bpool_event list \<Rightarrow> bool" where
  "modest n M tr \<longleftrightarrow>
     (\<forall>t \<in> set (chosen tr). 0 \<le> eta_add t \<and> eta_add t \<le> M) \<and>
     int n * 1000 + load (chosen tr) < 2 ^ 63 \<and>
     (\<forall>i t. Work i (End t) \<notin> set tr)"

definition eta_of :: "'t bpool \<Rightarrow> nat \<Rightarrow> int64" where
  "eta_of p i = w_eta (bp_workers p i)"

definition even_load ::
  "('t \<Rightarrow> nat list) \<Rightarrow> nat \<Rightarrow> int64 \<Rightarrow> bpool_event list \<Rightarrow> 't bpool \<Rightarrow> bool" where
  "even_load inorder n M tr p \<longleftrightarrow>
     (\<forall>i < n. 0 \<le> val64 (eta_of p i) \<and> val64 (eta_of p i) \<le> int n * 1000 + load (chosen tr)) \<and>
     (\<forall>i < n. \<forall>j < n. val64 (eta_of p i) \<le> val64 (eta_of p j) + max (val64 M) (int n * 1000)) \<and>
     sorted (map (eta_of p)
       (case bp_pc p of Free \<Rightarrow> inorder (bp_tree p) | Sending i \<Rightarrow> tl (inorder (bp_tree p))))"

lemma load_append [simp]: "load (xs @ ys) = load xs + load ys" "load [t] = val64 (eta_add t)"
    "load [] = 0"
  by (simp_all add: load_def)

lemma load_nonneg: "\<forall>t \<in> set ts. 0 \<le> eta_add t \<Longrightarrow> 0 \<le> load ts"
  by (induction ts) (auto simp: load_def less_eq_int64_def)

lemma modest_prefix: "modest n M (tr @ [e]) \<Longrightarrow> modest n M tr"
  using load_nonneg [of "chosen [e]"] by (auto simp: modest_def)

lemma modest_few: "modest n M tr \<Longrightarrow> few n"
  using load_nonneg [of "chosen tr"] by (auto simp: modest_def few_def)

lemma worker_eta_kept:
  "worker_step w e w' \<Longrightarrow> (\<forall>t. e \<noteq> Add t) \<Longrightarrow> (\<forall>t. e \<noteq> End t) \<Longrightarrow> w_eta w' = w_eta w"
  by (erule worker_step.cases) auto

text \<open>The step that changes an estimate: the least loaded worker gets a task.\<close>

lemma even_choose:
  assumes "\<forall>i < n. 0 \<le> f i \<and> f i \<le> L" and "\<forall>i < n. \<forall>j < n. f i \<le> f j + D"
    and "i < n" and "\<forall>j < n. f i \<le> f j" and "0 \<le> a" and "a \<le> D"
    and g: "g = f(i := f i + a)"
  shows "(\<forall>i < n. 0 \<le> g i \<and> g i \<le> L + a) \<and> (\<forall>i < n. \<forall>j < n. g i \<le> g j + (D :: int))"
proof -
  have "g j \<le> g k + D" if "j < n" "k < n" for j k
  proof -
    have "f j \<le> f k + D" "f i \<le> f k" using assms(2,4) that by blast+
    then show ?thesis using assms(5,6) by (cases "j = i"; cases "k = i") (simp_all add: g)
  qed
  moreover have "0 \<le> g j \<and> g j \<le> L + a" if "j < n" for j
    using assms(1,3,5) that by (cases "j = i") (auto simp: g intro: add_increasing2)
  ultimately show ?thesis by blast
qed

text \<open>The worker that is chosen has the least estimate, and only its estimate changes.\<close>

lemma chosen_least:
  assumes "tree_ok inorder n p" and "inorder (bp_tree p) = i # rest"
    and "sorted (map (eta_of p) (i # rest))"
  shows "i < n" and "\<forall>j < n. val64 (eta_of p i) \<le> val64 (eta_of p j)"
proof -
  show "i < n" using tree_ok_member [OF assms(1), of i] assms(2) by simp
  show "\<forall>j < n. val64 (eta_of p i) \<le> val64 (eta_of p j)"
  proof (intro allI impI)
    fix j assume "j < n"
    then have "j \<in> set (i # rest)" using tree_ok_member [OF assms(1), of j] assms(2) by simp
    then show "val64 (eta_of p i) \<le> val64 (eta_of p j)"
      using assms(3) by (auto simp: less_eq_int64_def)
  qed
qed

lemma choose_estimates:
  assumes "even_load inorder n M tr p" and "modest n M (tr @ [Choose i t])" and "i < n"
    and p': "p' = p\<lparr>bp_workers := (bp_workers p)(i := start_add t (bp_workers p i)), bp_pc := Sending i\<rparr>"
  shows "0 \<le> val64 (eta_add t)" and "val64 (eta_add t) \<le> val64 M"
    and "(\<lambda>j. val64 (eta_of p' j)) =
      (\<lambda>j. val64 (eta_of p j))(i := val64 (eta_of p i) + val64 (eta_add t))"
    and "j \<noteq> i \<Longrightarrow> eta_of p' j = eta_of p j"
proof -
  show t: "0 \<le> val64 (eta_add t)" "val64 (eta_add t) \<le> val64 M"
    using assms(2) by (auto simp: modest_def less_eq_int64_def)
  show other: "j \<noteq> i \<Longrightarrow> eta_of p' j = eta_of p j" for j
    by (simp add: p' eta_of_def)
  have "val64 (eta_of p i) + val64 (eta_add t) < 2 ^ 63"
    using assms(1-3) by (fastforce simp: even_load_def modest_def)
  then have "fits64 (val64 (eta_of p i) + val64 (eta_add t))"
    using assms(1,3) t(1) by (force simp: fits64_def even_load_def)
  then have "val64 (eta_of p' i) = val64 (eta_of p i) + val64 (eta_add t)"
    by (simp add: p' eta_of_def start_add_def val64_plus)
  then show "(\<lambda>j. val64 (eta_of p' j)) =
      (\<lambda>j. val64 (eta_of p j))(i := val64 (eta_of p i) + val64 (eta_add t))"
    using other by (auto simp: fun_eq_iff)
qed

lemma even_step:
  assumes "llrb ops inorder" and tree: "tree_ok inorder n p" and "even_load inorder n M tr p"
    and "bpool_step ops p e p'" and modest: "modest n M (tr @ [e])"
  shows "even_load inorder n M (tr @ [e]) p'"
  using assms(4)
proof cases
  case (choose i maxDelay options since t)
  obtain rest where rest: "inorder (bp_tree p) = i # rest"
    using choose(4) llrb_min(1) [OF assms(1)] by blast
  have sorted: "sorted (map (eta_of p) (i # rest))"
    using assms(3) choose(3) rest by (simp add: even_load_def)
  note least = chosen_least [OF tree rest sorted]
  note est = choose_estimates [OF assms(3) modest [unfolded choose(1)] least(1) choose(2)]
  have "i \<notin> set rest"
    using tree rest by (metis distinct.simps(2) distinct_upt mset_eq_imp_distinct_iff tree_ok_def)
  then have "map (eta_of p') rest = map (eta_of p) rest"
    using est(4) by (metis map_idI map_cong)
  then have "sorted (map (eta_of p') rest)" using sorted by (simp del: map_eq_conv)
  moreover have "(\<forall>i < n. 0 \<le> val64 (eta_of p' i) \<and>
        val64 (eta_of p' i) \<le> int n * 1000 + load (chosen tr) + val64 (eta_add t)) \<and>
      (\<forall>i < n. \<forall>j < n. val64 (eta_of p' i) \<le> val64 (eta_of p' j) + max (val64 M) (int n * 1000))"
    by (rule even_choose [OF _ _ least est(1) _ est(3)])
      (use assms(3) est(2) in \<open>auto simp: even_load_def\<close>)
  moreover have "bp_pc p' = Sending i" "bp_tree p' = bp_tree p" using choose(2) by simp_all
  ultimately show ?thesis
    by (simp add: even_load_def choose(1) rest add.assoc)
next
  case (return i)
  have "eta_of p' = eta_of p" using return(2) by (simp add: eta_of_def fun_eq_iff)
  moreover have "sorted (map (eta_of p) (inorder (t_delete_min ops (bp_tree p))))"
    using assms(3) return(3) by (simp add: even_load_def llrb_laws(3) [OF assms(1)])
  ultimately show ?thesis
    using return assms(3) llrb_laws(5) [OF assms(1), of "bp_workers p"]
    by (simp add: even_load_def eta_of_def [abs_def])
next
  case (work i e' w)
  have "\<forall>t. e' \<noteq> End t" using modest work(1) by (auto simp: modest_def)
  then have "eta_of p' = eta_of p"
    using worker_eta_kept [OF work(3,4)] work(2) by (auto simp: eta_of_def fun_eq_iff)
  moreover have "bp_pc p' = bp_pc p" "bp_tree p' = bp_tree p" using work(2) by simp_all
  ultimately show ?thesis using assms(3) by (simp add: even_load_def work(1) cong: bpool_pc.case_cong)
qed (use assms(3) in \<open>simp_all add: even_load_def\<close>)

lemma even_run:
  assumes "llrb ops inorder" and "run (bpool_step ops) (new_bpool ops n) tr p" and "modest n M tr"
  shows "even_load inorder n M tr p"
  using assms(2,3)
proof (induction tr arbitrary: p rule: rev_induct)
  case Nil
  have few: "few n" by (rule modest_few [OF Nil(2)])
  have new: "bp_workers p = (\<lambda>i. start_worker (base_eta n i))" "inorder (bp_tree p) = [0..<n]"
      "bp_pc p = Free"
    using new_bpool_spec [OF assms(1) few] Nil(1) by simp_all
  have eta: "val64 (eta_of p i) = int i * 1000" if "i < n" for i
    using that val64_micros [OF few that] by (simp add: eta_of_def new base_eta_def)
  have "sorted (map (eta_of p) [0..<n])"
    using eta by (auto simp: sorted_iff_nth_mono_less less_eq_int64_def)
  then show ?case
    using eta by (force simp: even_load_def new)
next
  case (snoc e tr)
  then obtain q where q: "run (bpool_step ops) (new_bpool ops n) tr q" "bpool_step ops q e p"
    by (auto simp: run_snoc_iff)
  have modest: "modest n M tr" by (rule modest_prefix [OF snoc.prems(2)])
  show ?case
    by (rule even_step [OF assms(1) tree_ok_run [OF assms(1) modest_few [OF modest] q(1)]
          snoc.IH [OF q(1) modest] q(2) snoc.prems(2)])
qed

text \<open>A tree for concrete runs: the ordered list itself.\<close>

fun ins :: "(nat \<Rightarrow> nat \<Rightarrow> bool) \<Rightarrow> nat \<Rightarrow> nat list \<Rightarrow> nat list" where
  "ins lt i [] = [i]"
| "ins lt i (j # js) = (if lt i j then i # j # js else j # ins lt i js)"

definition list_ops :: "nat list tree_ops" where
  "list_ops = \<lparr>t_new = [], t_min = (\<lambda>t. case t of [] \<Rightarrow> None | i # _ \<Rightarrow> Some i),
     t_delete_min = tl, t_insert = ins, t_replace = ins\<rparr>"

lemma ins_mset: "mset (ins lt i t) = add_mset i (mset t)"
  by (induction t) auto

lemma ins_set [simp]: "set (ins lt i t) = insert i (set t)"
  by (induction t) auto

lemma ins_sorted: "sorted (map f t) \<Longrightarrow> sorted (map f (ins (\<lambda>a b. f a < (f b :: int64)) i t))"
  by (induction t) (auto simp: not_less intro: less_imp_le order_trans)

lemma ins_last: "\<forall>j \<in> set t. f j < (f i :: int64) \<Longrightarrow> ins (\<lambda>a b. f a < f b) i t = t @ [i]"
  by (induction t) (auto dest: less_asym)

lemma llrb_list: "llrb list_ops id"
  by (simp add: llrb_def list_ops_def ins_mset ins_sorted ins_last)

inductive_simps bpool_Choose: "bpool_step ops p (Choose i t) p'"
inductive_simps bpool_Return: "bpool_step ops p (Return i) p'"
inductive_simps bpool_Work: "bpool_step ops p (Work i e) p'"
inductive_simps bpool_Fail: "bpool_step ops p (Fail err) p'"

lemmas bpool_simps = bpool_Choose bpool_Return bpool_Work bpool_Fail

section \<open>Properties\<close>

text \<open>
  C6. The pool is balanced: as long as tasks are only added, with estimates between 0 and \<open>M\<close>
  that do not overflow together, the estimates of any two workers differ by at most the
  larger of \<open>M\<close> and the spread that \<open>New\<close> gave them, a microsecond for each worker.
\<close>

theorem RunAsync_balanced:
  assumes "llrb ops inorder" and "run (bpool_step ops) (new_bpool ops n) tr p"
    and "modest n M tr" and "i < n" and "j < n"
  shows "val64 (w_eta (bp_workers p i)) \<le>
    val64 (w_eta (bp_workers p j)) + max (val64 M) (int n * 1000)"
  using even_run [OF assms(1-3)] assms(4,5) by (simp add: even_load_def eta_of_def)

text \<open>Two workers and two tasks; the second task goes to the second worker.\<close>

definition pair_start :: "nat list bpool" where
  "pair_start =
     \<lparr>bp_workers = (\<lambda>i. start_worker (base_eta 2 i)), bp_tree = [0, 1], bp_pc = Free\<rparr>"

lemma new_pair: "new_bpool list_ops 2 = pair_start"
  using new_bpool_spec [OF llrb_list, of 2]
  by (cases "new_bpool list_ops 2") (simp add: few_def pair_start_def numeral_2_eq_2)

definition busy_worker :: "int \<Rightarrow> task \<Rightarrow> worker" where
  "busy_worker e t =
     (start_worker (of_int64 e))\<lparr>w_tasks := \<lparr>mgr = Enter, storage = [t], in_closed = False,
        out_closed = False, cancelled = False, finalized = False\<rparr>\<rparr>"

definition pair_trace :: "bpool_event list" where
  "pair_trace =
     [Choose 0 (sec 10000), Work 0 (Manager Tau), Work 0 (Deliver (sec 10000)), Return 0,
      Choose 1 (sec 5000), Work 1 (Manager Tau), Work 1 (Deliver (sec 5000)), Return 1]"

definition pair_end :: "nat list bpool" where
  "pair_end =
     \<lparr>bp_workers = (\<lambda>i. start_worker (base_eta 2 i))
        (0 := busy_worker 10000 (sec 10000), 1 := busy_worker 6000 (sec 5000)),
      bp_tree = [1, 0], bp_pc = Free\<rparr>"

lemma no_delay [simp]:
  "\<exists>maxDelay. (\<exists>options. maxDelay = fold apply_RunOption options 0) \<and> (maxDelay = 0 \<or> P maxDelay)"
  by (intro exI [of _ 0] conjI exI [of _ "[]"]) simp_all

lemmas pair_run_simps =
  run_Cons_iff bpool_simps worker_simps uchan_Tau uchan_Send uchan_Recv list_ops_def start_worker_def
  newWorker_def start_add_def base_eta_def micros_def NewUnlimitedChannel_def Less_def sec_def
  of_int64_compare

lemma pair_trace_run: "run (bpool_step list_ops) (new_bpool list_ops 2) pair_trace pair_end"
  unfolding new_pair pair_trace_def pair_start_def
  apply (simp add: pair_run_simps)
  apply (simp add: pair_end_def busy_worker_def pair_run_simps fun_eq_iff)
  done

theorem RunAsync_balanced_witness:
  "val64 (w_eta (bp_workers pair_end 0)) \<le>
    val64 (w_eta (bp_workers pair_end 1)) + max (val64 (of_int64 10000)) (int 2 * 1000)"
  by (rule RunAsync_balanced [OF llrb_list pair_trace_run])
    (simp_all add: modest_def pair_trace_def load_def sec_def val64_of_int64 of_int64_compare
      less_eq_int64_def)

text \<open>
  C16. No worker is lost and no task is given or run twice: between calls the tree holds every
  worker once, so \<open>ErrWorkerNotFound\<close> can only be returned by a pool of no workers; the tasks
  added to the workers are the tasks handed out, each to one worker, and the tasks that
  ended are among them.
\<close>

theorem RunAsync_hands_out_once:
  assumes "llrb ops inorder" and "few n" and "run (bpool_step ops) (new_bpool ops n) tr p"
  shows "mset (inorder (bp_tree p)) = mset [0..<n] \<and>
    (bp_pc p = Free \<and> n = 0 \<longleftrightarrow> (\<exists>p'. bpool_step ops p (Fail ErrWorkerNotFound) p')) \<and>
    mset (concat (map (\<lambda>i. added (worker_events i tr)) [0..<n])) = mset (chosen tr) \<and>
    mset (concat (map (\<lambda>i. ended (worker_events i tr)) [0..<n])) \<subseteq># mset (chosen tr)"
proof -
  have tree: "tree_ok inorder n p" by (rule tree_ok_run [OF assms])
  have fail: "(\<exists>p'. bpool_step ops p (Fail ErrWorkerNotFound) p') \<longleftrightarrow>
      bp_pc p = Free \<and> inorder (bp_tree p) = []"
    by (auto simp: bpool_Fail llrb_min(2) [OF assms(1)])
  have "inorder (bp_tree p) = [] \<longleftrightarrow> n = 0"
    using tree unfolding tree_ok_def
    by (metis length_0_conv length_upt diff_zero mset_eq_length)
  moreover have "mset (ended (worker_events i tr)) \<subseteq># mset (added (worker_events i tr))" for i
  proof -
    have "workers_ok n tr p"
      by (rule bw.history_from_start [OF assms(3) workers_ok_new [OF assms(1,2)]])
    then have "run worker_step (start_worker (base_eta n i)) (worker_events i tr) (bp_workers p i)"
      by (simp add: workers_ok_def)
    from flow_ended [OF worker_flow_run [OF this]] show ?thesis by auto
  qed
  then have "mset (concat (map (\<lambda>i. ended (worker_events i tr)) [0..<n])) \<subseteq># mset (chosen tr)"
    using mset_concat_mono handed_run [OF assms] by (metis (no_types, lifting) handed_to_def)
  ultimately show ?thesis
    using tree fail handed_run [OF assms] by (auto simp: tree_ok_def handed_to_def)
qed

theorem RunAsync_hands_out_once_witness:
  "mset (id (bp_tree pair_end)) = mset [0..<2] \<and>
    (bp_pc pair_end = Free \<and> (2 :: nat) = 0 \<longleftrightarrow>
      (\<exists>p'. bpool_step list_ops pair_end (Fail ErrWorkerNotFound) p')) \<and>
    mset (concat (map (\<lambda>i. added (worker_events i pair_trace)) [0..<2])) = mset (chosen pair_trace) \<and>
    mset (concat (map (\<lambda>i. ended (worker_events i pair_trace)) [0..<2]))
      \<subseteq># mset (chosen pair_trace)"
  by (rule RunAsync_hands_out_once [OF llrb_list _ pair_trace_run]) (simp add: few_def)

definition idle_trace :: "bpool_event list" where
  "idle_trace = pair_trace @
     [Work 0 (Manager Tau), Work 0 Check, Work 0 (TakeTask (sec 10000)),
      Work 0 (Start (sec 10000) 5), Work 0 (Do (sec 10000)), Work 0 (End (sec 10000))]"

text \<open>
  The balance is lost when tasks end: a worker keeps the place in the tree it had when it
  got its last task, so \<open>RunAsync\<close> may choose a worker that still has work although another
  one is idle.
\<close>

theorem RunAsync_prefers_busy_worker:
  "\<exists>p. run (bpool_step list_ops) (new_bpool list_ops 2) idle_trace p \<and>
     w_eta (bp_workers p 0) = 0 \<and> w_eta (bp_workers p 1) = of_int64 6000 \<and>
     {i. \<exists>t p'. bpool_step list_ops p (Choose i t) p'} = {1}"
proof -
  have "\<exists>p. run (bpool_step list_ops) pair_end
      [Work 0 (Manager Tau), Work 0 Check, Work 0 (TakeTask (sec 10000)),
       Work 0 (Start (sec 10000) 5), Work 0 (Do (sec 10000)), Work 0 (End (sec 10000))] p \<and>
     w_eta (bp_workers p 0) = 0 \<and> w_eta (bp_workers p 1) = of_int64 6000 \<and>
     {i. \<exists>t p'. bpool_step list_ops p (Choose i t) p'} = {1}"
    by (simp add: pair_end_def busy_worker_def pair_run_simps)
  then show ?thesis
    unfolding idle_trace_def using run_append [OF _ pair_trace_run] by blast
qed

end
