(* ===== verification/K8s_Yaml.thy ===== *)
theory K8s_Yaml
  imports Quiver_Prelude "HOL-Library.Sublist"
begin

text \<open>
  The manifests of \<open>k8s/k8s.go\<close>: \<open>EncodeYAMLAll\<close>, which joins the documents of resources, and
  \<open>DecodeAllYAML\<close>, which cuts a manifest into documents, drops blank lines and comments, and
  decodes each. Encoding and decoding of a single document are library code and parameters.
  Strings are lists of characters, of which white space is the ASCII one. The theory shows when
  decoding gives back what was encoded, and what the cutting does to documents that contain
  dashes, comments or blank lines.
\<close>

section \<open>Strings\<close>

definition newline :: char where
  "newline = CHR 0x0A"

definition return_char :: char where
  "return_char = CHR 0x0D"

text \<open>\<open>unicode.IsSpace\<close> and the class \<open>\\s\<close> of a regular expression, on ASCII.\<close>

definition is_space :: "char \<Rightarrow> bool" where
  "is_space c \<longleftrightarrow> c \<in> {CHR 0x09, CHR 0x0A, CHR 0x0B, CHR 0x0C, CHR 0x0D, CHR '' ''}"

definition is_re_space :: "char \<Rightarrow> bool" where
  "is_re_space c \<longleftrightarrow> c \<in> {CHR 0x09, CHR 0x0A, CHR 0x0C, CHR 0x0D, CHR '' ''}"

definition rtrim :: "string \<Rightarrow> string" where
  "rtrim s = rev (dropWhile is_space (rev s))"

text \<open>\<open>strings.TrimSpace\<close>, and \<open>strings.Split\<close> with a separator that is not empty.\<close>

definition TrimSpace :: "string \<Rightarrow> string" where
  "TrimSpace s = rtrim (dropWhile is_space s)"

function split_from :: "string \<Rightarrow> string \<Rightarrow> string \<Rightarrow> string list" where
  "split_from sep acc s =
     (if sep \<noteq> [] \<and> prefix sep s then acc # split_from sep [] (drop (length sep) s)
      else case s of [] \<Rightarrow> [acc] | c # cs \<Rightarrow> split_from sep (acc @ [c]) cs)"
  by pat_completeness auto
termination
  by (relation "measure (\<lambda>(sep, acc, s). length s)") (auto simp: prefix_def)

declare split_from.simps [simp del]

definition Split :: "string \<Rightarrow> string \<Rightarrow> string list" where
  "Split s sep = split_from sep [] s"

text \<open>\<open>strings.ReplaceAll(doc, "\\r", "")\<close> and \<open>strings.Join(lines, "\\n")\<close>.\<close>

definition remove_returns :: "string \<Rightarrow> string" where
  "remove_returns doc = filter (\<lambda>c. c \<noteq> return_char) doc"

fun Join :: "string list \<Rightarrow> string" where
  "Join [] = []"
| "Join [l] = l"
| "Join (l # ls) = l @ newline # Join ls"

section \<open>Encoding and decoding\<close>

text \<open>The loop of \<open>EncodeYAMLAll\<close>, with the buffer so far.\<close>

fun encode_items :: "('r \<Rightarrow> 'e + string) \<Rightarrow> string \<Rightarrow> 'r list \<Rightarrow> ('e, string) outcome" where
  "encode_items encode buf [] = Ok buf"
| "encode_items encode buf (item # rest) =
     (case encode item of
        Inl err \<Rightarrow> Err err
      | Inr data \<Rightarrow>
          encode_items encode
            (buf @ (if length buf \<noteq> 0 then newline # ''---'' @ [newline] else ''---'' @ [newline])
              @ data) rest)"

definition EncodeYAMLAll :: "('r \<Rightarrow> 'e + string) \<Rightarrow> 'r list \<Rightarrow> ('e, string) outcome" where
  "EncodeYAMLAll encode items = encode_items encode [] items"

text \<open>\<open>commentRegex\<close>: white space and a hash at the start of the line.\<close>

definition is_comment :: "string \<Rightarrow> bool" where
  "is_comment line \<longleftrightarrow>
     (case dropWhile is_re_space line of [] \<Rightarrow> False | c # _ \<Rightarrow> c = CHR ''#'')"

text \<open>A document as it is decoded; \<open>None\<close> when it is skipped.\<close>

definition clean_doc :: "string \<Rightarrow> string option" where
  "clean_doc doc =
     (let doc = remove_returns (TrimSpace doc);
          nonCommentLines =
            filter (\<lambda>line. \<not> is_comment line \<and> TrimSpace line \<noteq> []) (Split doc [newline])
      in if length nonCommentLines = 0 then None else Some (Join nonCommentLines))"

fun decode_docs :: "(string \<Rightarrow> 'e + 'r) \<Rightarrow> string list \<Rightarrow> 'r list \<Rightarrow> ('e, 'r list) outcome" where
  "decode_docs decode [] results = Ok results"
| "decode_docs decode (doc # docs) results =
     (case clean_doc doc of
        None \<Rightarrow> decode_docs decode docs results
      | Some doc \<Rightarrow>
          (case decode doc of
             Inl err \<Rightarrow> Err err
           | Inr obj \<Rightarrow> decode_docs decode docs (results @ [obj])))"

definition DecodeAllYAML :: "(string \<Rightarrow> 'e + 'r) \<Rightarrow> string \<Rightarrow> ('e, 'r list) outcome" where
  "DecodeAllYAML decode yamlContent =
     decode_docs decode (Split (TrimSpace yamlContent) ''---'') []"

text \<open>
  \<open>GenManifest\<close>: the steps of Helm are parameters, the set-up of the action, the loading of the
  chart and its rendering. The resources, the manifest and the error are named results.
\<close>

definition GenManifest ::
  "'e option \<Rightarrow> (string \<Rightarrow> 'e + 'chart) \<Rightarrow> ('chart \<Rightarrow> 'v \<Rightarrow> 'e + string) \<Rightarrow> (string \<Rightarrow> 'e + 'r) \<Rightarrow>
    string \<Rightarrow> 'v \<Rightarrow> ('e, 'r list \<times> string \<times> 'e option) outcome" where
  "GenManifest setup load render decode chartPath values =
     (case setup of
        Some err \<Rightarrow> Ok ([], [], Some err)
      | None \<Rightarrow>
          (case load chartPath of
             Inl err \<Rightarrow> Ok ([], [], Some err)
           | Inr chart \<Rightarrow>
               (case render chart values of
                  Inl err \<Rightarrow> Ok ([], [], Some err)
                | Inr manifest \<Rightarrow>
                    (case DecodeAllYAML decode manifest of
                       Ok resources \<Rightarrow> Ok (resources, manifest, None)
                     | Err err \<Rightarrow> Ok ([], manifest, Some err)
                     | Panic p \<Rightarrow> Panic p))))"

section \<open>Trimming\<close>

lemma rtrim_append: "\<exists>c \<in> set t. \<not> is_space c \<Longrightarrow> rtrim (s @ t) = s @ rtrim t"
  by (erule bexE) (simp add: rtrim_def dropWhile_append1)

lemma rtrim_idem [simp]: "rtrim (rtrim s) = rtrim s"
  by (simp add: rtrim_def dropWhile_idem)

lemma trim_front: "is_space c \<Longrightarrow> TrimSpace (c # s) = TrimSpace s"
  by (simp add: TrimSpace_def)

lemma rtrim_snoc: "is_space c \<Longrightarrow> rtrim (s @ [c]) = rtrim s"
  by (simp add: rtrim_def)

lemma trim_snoc: "is_space c \<Longrightarrow> TrimSpace (s @ [c]) = TrimSpace s"
  by (cases "\<forall>c \<in> set s. is_space c")
    (auto simp: TrimSpace_def rtrim_snoc rtrim_def dropWhile_append1 dropWhile_append2
      dropWhile_eq_Nil_conv [THEN iffD2])

lemma rtrim_suffix_spaces: "\<exists>t. s = rtrim s @ t \<and> (\<forall>c \<in> set t. is_space c)"
  by (rule exI [of _ "rev (takeWhile is_space (rev s))"])
    (auto simp: rtrim_def dest: set_takeWhileD simp flip: rev_append)

lemma trim_snocs: "\<forall>c \<in> set t. is_space c \<Longrightarrow> TrimSpace (s @ t) = TrimSpace s"
  by (induction t rule: rev_induct) (simp_all add: trim_snoc flip: append_assoc)

lemma trim_rtrim: "TrimSpace (rtrim s) = TrimSpace s"
  using rtrim_suffix_spaces [of s] trim_snocs by metis

lemma trim_empty: "TrimSpace s = [] \<longleftrightarrow> (\<forall>c \<in> set s. is_space c)"
  by (auto simp: TrimSpace_def rtrim_def dropWhile_eq_Nil_conv dest: set_dropWhileD)
    (metis dropWhile_eq_Nil_conv hd_dropWhile list.set_sel(1))

lemma newline_space [simp]: "is_space newline"
  by (simp add: is_space_def newline_def)

text \<open>Only the trimmed document counts.\<close>

lemma clean_trim: "TrimSpace s = TrimSpace t \<Longrightarrow> clean_doc s = clean_doc t"
  by (simp add: clean_doc_def)

section \<open>Splitting\<close>

lemma split_at_sep:
  assumes "sep \<noteq> []" and "\<not> sublist sep (a @ butlast sep)"
  shows "split_from sep acc (a @ sep @ b) = (acc @ a) # split_from sep [] b"
  using assms(2)
proof (induction a arbitrary: acc)
  case Nil
  show ?case using assms(1) by (subst split_from.simps) simp
next
  case (Cons c a)
  have "\<not> prefix sep (c # a @ sep @ b)"
  proof
    assume "prefix sep (c # a @ sep @ b)"
    moreover have "prefix (c # a @ butlast sep) (c # a @ sep @ b)"
    proof -
      have "sep = butlast sep @ [last sep]" using assms(1) by simp
      then have "c # a @ sep @ b = (c # a @ butlast sep) @ last sep # b" by (metis append.assoc append_Cons append_Nil)
      then show ?thesis by (metis prefixI)
    qed
    moreover have "length sep \<le> length (c # a @ butlast sep)" by simp
    ultimately have "prefix sep (c # a @ butlast sep)" by (rule prefix_length_prefix)
    then show False using Cons.prems by (metis append_Cons prefix_imp_sublist)
  qed
  moreover have "\<not> sublist sep (a @ butlast sep)"
    using Cons.prems by (metis append_Cons sublist_Cons_right)
  ultimately show ?case
    using Cons.IH by (subst split_from.simps) simp
qed

lemma split_no_sep: "\<not> sublist sep a \<Longrightarrow> split_from sep acc a = [acc @ a]"
proof (induction a arbitrary: acc)
  case Nil
  then show ?case by (subst split_from.simps) (auto simp: prefix_def)
next
  case (Cons c a)
  then show ?case
    by (subst split_from.simps) (auto simp: sublist_Cons_right)
qed

lemma sublist_around: "c \<notin> set sep \<Longrightarrow> sublist sep (u @ c # v) \<longleftrightarrow> sublist sep u \<or> sublist sep v"
proof -
  assume c: "c \<notin> set sep"
  have "sublist sep u" if "sep = a @ b" "suffix a u" "prefix b (c # v)" for a b
    using that c by (cases b) (auto dest: suffix_imp_sublist)
  moreover have "sublist sep (c # v) \<longleftrightarrow> sublist sep v"
    using c by (cases sep) (auto simp: sublist_Cons_right)
  ultimately show ?thesis by (auto simp: sublist_append)
qed

section \<open>The round trip\<close>

definition dashes :: string where
  "dashes = ''---''"

definition tail :: "string list \<Rightarrow> string" where
  "tail ss = concat (map (\<lambda>s. newline # dashes @ newline # s) ss)"

text \<open>An encoded document that survives the cutting and cleaning.\<close>

definition survives :: "('r \<Rightarrow> 'e + string) \<Rightarrow> (string \<Rightarrow> 'e + 'r) \<Rightarrow> 'r \<Rightarrow> bool" where
  "survives encode decode r \<longleftrightarrow>
     (case encode r of
        Inl err \<Rightarrow> False
      | Inr s \<Rightarrow> \<not> sublist dashes s \<and>
          (case clean_doc s of None \<Rightarrow> False | Some t \<Rightarrow> decode t = Inr r))"

definition intact :: "(string \<Rightarrow> 'e + 'r) \<Rightarrow> 'r \<Rightarrow> string \<Rightarrow> bool" where
  "intact decode r s \<longleftrightarrow> \<not> sublist dashes s \<and> (\<exists>t. clean_doc s = Some t \<and> decode t = Inr r)"

lemma survives_intact: "survives encode decode r \<Longrightarrow> \<exists>s. encode r = Inr s \<and> intact decode r s"
  by (auto simp: survives_def intact_def split: sum.splits option.splits)

lemma encode_items_tail:
  "list_all2 (\<lambda>r s. encode r = Inr s) rs ss \<Longrightarrow> buf \<noteq> [] \<Longrightarrow>
    encode_items encode buf rs = Ok (buf @ tail ss)"
  by (induction rs ss arbitrary: buf rule: list_all2_induct) (auto simp: tail_def dashes_def)

lemma TrimSpace_Nil [simp]: "TrimSpace [] = []"
  by (simp add: TrimSpace_def rtrim_def)

lemma trim_dashes: "TrimSpace (dashes @ s) = rtrim (dashes @ s)"
  by (simp add: TrimSpace_def dashes_def is_space_def)

lemma clean_blank: "TrimSpace s = [] \<Longrightarrow> clean_doc s = None"
  by (simp add: clean_doc_def remove_returns_def Split_def split_no_sep)

lemma clean_nonspace: "clean_doc s = Some t \<Longrightarrow> \<exists>c \<in> set s. \<not> is_space c"
  using clean_blank trim_empty by fastforce

lemma choose_list: "\<forall>r \<in> set rs. \<exists>s. P r s \<Longrightarrow> \<exists>ss. list_all2 P rs ss"
  by (induction rs) (auto simp: list_all2_Cons1)

lemma dashes_newline: "newline \<notin> set dashes" "dashes \<noteq> []" "\<not> sublist dashes (butlast dashes)"
  by (auto simp: newline_def dashes_def dest: sublist_length_le)

lemma split_doc:
  assumes "\<not> sublist dashes s"
  shows "split_from dashes [] ((newline # s @ [newline]) @ dashes @ b) =
    (newline # s @ [newline]) # split_from dashes [] b"
proof -
  have "\<not> sublist dashes ([] @ newline # (s @ newline # butlast dashes))"
    unfolding sublist_around [OF dashes_newline(1)] using assms dashes_newline by simp
  then show ?thesis
    using split_at_sep [of dashes "newline # s @ [newline]" "[]" b] dashes_newline by simp
qed

lemma rtrim_sublist: "sublist (rtrim s) s"
  using rtrim_suffix_spaces [of s] by (metis prefixI prefix_imp_sublist)

lemma split_last_doc:
  assumes "\<not> sublist dashes s"
  shows "split_from dashes [] (rtrim (newline # s)) = [rtrim (newline # s)]"
proof -
  have "\<not> sublist dashes (newline # s)"
    using sublist_around [OF dashes_newline(1), of "[]" s] assms dashes_newline(2) by simp
  then have "\<not> sublist dashes (rtrim (newline # s))"
    using rtrim_sublist sublist_order.order_trans by blast
  then show ?thesis by (simp add: split_no_sep)
qed

lemma decode_body:
  "list_all2 (intact decode) rs ss \<Longrightarrow> intact decode r s \<Longrightarrow>
    decode_docs decode (split_from dashes [] (rtrim (newline # s @ tail ss))) res =
      Ok (res @ r # rs)"
proof (induction rs ss arbitrary: r s res rule: list_all2_induct)
  case Nil
  have "clean_doc (rtrim (newline # s)) = clean_doc s"
    by (rule clean_trim) (simp add: trim_rtrim trim_front)
  then show ?case
    using Nil by (auto simp: intact_def tail_def split_last_doc)
next
  case (Cons r' rs s' ss)
  have space: "\<exists>c \<in> set (newline # s' @ tail ss). \<not> is_space c"
    using Cons.hyps(1) clean_nonspace by (fastforce simp: intact_def)
  have "newline # s @ tail (s' # ss) =
      ((newline # s @ [newline]) @ dashes) @ (newline # s' @ tail ss)"
    by (simp add: tail_def)
  then have "rtrim (newline # s @ tail (s' # ss)) =
      (newline # s @ [newline]) @ dashes @ rtrim (newline # s' @ tail ss)"
    by (metis rtrim_append [OF space] append.assoc)
  moreover have "clean_doc (newline # s @ [newline]) = clean_doc s"
    by (rule clean_trim) (simp add: trim_front trim_snoc flip: append_Cons)
  ultimately show ?case
    using Cons.prems Cons.IH [OF Cons.hyps(1), of "res @ [r]"] split_doc [of s]
    by (auto simp: intact_def)
qed

section \<open>Properties\<close>

text \<open>
  C12. Round trip: \<open>DecodeAllYAML\<close> gives back the resources that \<open>EncodeYAMLAll\<close> encoded, in
  their order, when the decoder undoes the encoder on each document as it is cleaned and no
  document contains three dashes.
\<close>

theorem DecodeAllYAML_EncodeYAMLAll:
  assumes "\<forall>r \<in> set rs. survives encode decode r"
  shows "obind (EncodeYAMLAll encode rs) (DecodeAllYAML decode) = Ok rs"
proof (cases rs)
  case Nil
  then show ?thesis
    by (simp add: EncodeYAMLAll_def DecodeAllYAML_def TrimSpace_def rtrim_def Split_def split_no_sep
        clean_doc_def remove_returns_def newline_def)
next
  case (Cons r rs')
  obtain s where s: "encode r = Inr s" "intact decode r s"
    using survives_intact [of encode decode r] assms Cons by auto
  have each: "\<forall>r \<in> set rs'. \<exists>s. encode r = Inr s \<and> intact decode r s"
    using survives_intact assms Cons by (metis list.set_intros(2))
  obtain ss where both: "list_all2 (\<lambda>r s. encode r = Inr s \<and> intact decode r s) rs' ss"
    using choose_list [OF each] ..
  have ss1: "list_all2 (\<lambda>r s. encode r = Inr s) rs' ss"
    by (rule list_all2_mono [OF both]) simp
  have ss2: "list_all2 (intact decode) rs' ss"
    by (rule list_all2_mono [OF both]) simp
  let ?body = "newline # s @ tail ss"
  have enc: "EncodeYAMLAll encode rs = Ok (dashes @ ?body)"
    unfolding EncodeYAMLAll_def Cons
    by (simp add: s(1) encode_items_tail [OF ss1] dashes_def)
  have "\<exists>c \<in> set ?body. \<not> is_space c"
    using s(2) clean_nonspace by (fastforce simp: intact_def)
  then have "TrimSpace (dashes @ ?body) = [] @ dashes @ rtrim ?body"
    by (metis append_Nil rtrim_append trim_dashes)
  moreover have "split_from dashes [] ([] @ dashes @ rtrim ?body) = [] # split_from dashes [] (rtrim ?body)"
    using split_at_sep [of dashes "[]" "[]" "rtrim ?body"] dashes_newline by simp
  ultimately have "DecodeAllYAML decode (dashes @ ?body) =
      decode_docs decode ([] # split_from dashes [] (rtrim ?body)) []"
    unfolding DecodeAllYAML_def Split_def dashes_def [symmetric] by simp
  then show ?thesis
    using decode_body [OF ss2 s(2), of "[]"] unfolding enc by (simp add: clean_blank Cons)
qed

definition plain_encode :: "string \<Rightarrow> string + string" where
  "plain_encode r = Inr (''kind: '' @ r @ [newline])"

definition plain_decode :: "string \<Rightarrow> string + string" where
  "plain_decode t = (if prefix ''kind: '' t then Inr (drop 6 t) else Inl ''no kind'')"

theorem DecodeAllYAML_EncodeYAMLAll_witness:
  "obind (EncodeYAMLAll plain_encode [''Pod'', ''Job'']) (DecodeAllYAML plain_decode) =
     Ok [''Pod'', ''Job'']"
  by (rule DecodeAllYAML_EncodeYAMLAll) code_simp

text \<open>
  What is not undone: three dashes inside a line end a document, and lines of a text that
  look like comments or are blank are dropped.
\<close>

theorem DecodeAllYAML_damages:
  "DecodeAllYAML Inr (''a: -----BEGIN'') = (Ok [''a:'', ''--BEGIN''] :: (string, string list) outcome) \<and>
   DecodeAllYAML Inr (''a: |'' @ newline # ''  # b'' @ newline # newline # ''  c'') =
     (Ok [''a: |'' @ newline # ''  c''] :: (string, string list) outcome)"
  by code_simp

end
