(* ===== verification/K8s_Resources.thy ===== *)
theory K8s_Resources
  imports Quiver_Prelude "HOL-Library.Sublist"
begin

text \<open>
  \<open>k8s/def.go\<close> and the base of \<open>k8s/k8s.go\<close>: the kinds and the endpoints of their clients, the
  resources, \<open>Parse\<close>, \<open>EncodeYAML\<close>, \<open>Init\<close>, and the API server, a parameter: a record of its
  operations on a world, with what the code relies on as the predicate \<open>api_ok\<close> over the
  objects it stores.
\<close>

section \<open>Kinds\<close>

datatype kind =
    KindDeployment
  | KindStatefulSet
  | KindConfigMap
  | KindCronJob
  | KindService
  | KindIngress
  | KindPodDisruptionBudget
  | KindSecret
  | KindStorageClass
  | KindPersistentVolumeClaim
  | KindPersistentVolume
  | KindCustomResourceDefinition
  | KindServiceAccount
  | KindClusterRole
  | KindClusterRoleBinding
  | KindRole
  | KindRoleBinding
  | KindDaemonSet
  | KindPod
  | KindJob
  | KindHorizontalPodAutoscaler

fun kind_name :: "kind \<Rightarrow> string" where
  "kind_name KindDeployment = ''Deployment''"
| "kind_name KindStatefulSet = ''StatefulSet''"
| "kind_name KindConfigMap = ''ConfigMap''"
| "kind_name KindCronJob = ''CronJob''"
| "kind_name KindService = ''Service''"
| "kind_name KindIngress = ''Ingress''"
| "kind_name KindPodDisruptionBudget = ''PodDisruptionBudget''"
| "kind_name KindSecret = ''Secret''"
| "kind_name KindStorageClass = ''StorageClass''"
| "kind_name KindPersistentVolumeClaim = ''PersistentVolumeClaim''"
| "kind_name KindPersistentVolume = ''PersistentVolume''"
| "kind_name KindCustomResourceDefinition = ''CustomResourceDefinition''"
| "kind_name KindServiceAccount = ''ServiceAccount''"
| "kind_name KindClusterRole = ''ClusterRole''"
| "kind_name KindClusterRoleBinding = ''ClusterRoleBinding''"
| "kind_name KindRole = ''Role''"
| "kind_name KindRoleBinding = ''RoleBinding''"
| "kind_name KindDaemonSet = ''DaemonSet''"
| "kind_name KindPod = ''Pod''"
| "kind_name KindJob = ''Job''"
| "kind_name KindHorizontalPodAutoscaler = ''HorizontalPodAutoscaler''"

definition all_kinds :: "kind list" where
  "all_kinds =
     [KindDeployment, KindStatefulSet, KindConfigMap, KindCronJob, KindService,
      KindIngress, KindPodDisruptionBudget, KindSecret, KindStorageClass,
      KindPersistentVolumeClaim, KindPersistentVolume, KindCustomResourceDefinition,
      KindServiceAccount, KindClusterRole, KindClusterRoleBinding, KindRole,
      KindRoleBinding, KindDaemonSet, KindPod, KindJob, KindHorizontalPodAutoscaler]"

text \<open>The case of a \<open>switch kind\<close>; \<open>None\<close> is the default.\<close>

definition switch_kind :: "string \<Rightarrow> kind option" where
  "switch_kind name = find (\<lambda>k. kind_name k = name) all_kinds"

text \<open>
  The client of a kind: the group it is taken from, its name there, and the namespace, unless
  the resources of the kind belong to the whole cluster.
\<close>

datatype group =
    AppsV1
  | CoreV1
  | BatchV1
  | NetworkingV1
  | PolicyV1
  | StorageV1
  | RbacV1
  | AutoscalingV2
  | ApiextensionsV1

datatype endpoint = Namespaced group string string | ClusterWide group string

fun client_of :: "kind \<Rightarrow> string \<Rightarrow> endpoint" where
  "client_of KindDeployment ns = Namespaced AppsV1 ''Deployments'' ns"
| "client_of KindStatefulSet ns = Namespaced AppsV1 ''StatefulSets'' ns"
| "client_of KindConfigMap ns = Namespaced CoreV1 ''ConfigMaps'' ns"
| "client_of KindCronJob ns = Namespaced BatchV1 ''CronJobs'' ns"
| "client_of KindService ns = Namespaced CoreV1 ''Services'' ns"
| "client_of KindIngress ns = Namespaced NetworkingV1 ''Ingresses'' ns"
| "client_of KindPodDisruptionBudget ns = Namespaced PolicyV1 ''PodDisruptionBudgets'' ns"
| "client_of KindSecret ns = Namespaced CoreV1 ''Secrets'' ns"
| "client_of KindStorageClass ns = ClusterWide StorageV1 ''StorageClasses''"
| "client_of KindPersistentVolumeClaim ns = Namespaced CoreV1 ''PersistentVolumeClaims'' ns"
| "client_of KindPersistentVolume ns = ClusterWide CoreV1 ''PersistentVolumes''"
| "client_of KindCustomResourceDefinition ns = ClusterWide ApiextensionsV1 ''CustomResourceDefinitions''"
| "client_of KindServiceAccount ns = Namespaced CoreV1 ''ServiceAccounts'' ns"
| "client_of KindClusterRole ns = ClusterWide RbacV1 ''ClusterRoles''"
| "client_of KindClusterRoleBinding ns = ClusterWide RbacV1 ''ClusterRoleBindings''"
| "client_of KindRole ns = Namespaced RbacV1 ''Roles'' ns"
| "client_of KindRoleBinding ns = Namespaced RbacV1 ''RoleBindings'' ns"
| "client_of KindDaemonSet ns = Namespaced AppsV1 ''DaemonSets'' ns"
| "client_of KindPod ns = Namespaced CoreV1 ''Pods'' ns"
| "client_of KindJob ns = Namespaced BatchV1 ''Jobs'' ns"
| "client_of KindHorizontalPodAutoscaler ns = Namespaced AutoscalingV2 ''HorizontalPodAutoscalers'' ns"

fun group_of :: "endpoint \<Rightarrow> group" where
  "group_of (Namespaced g res ns) = g"
| "group_of (ClusterWide g res) = g"

lemma all_kinds_complete: "k \<in> set all_kinds"
  by (cases k) (simp_all add: all_kinds_def)

lemma kind_names_distinct: "distinct (map kind_name all_kinds)"
  by code_simp

lemma kind_name_inject: "kind_name k = kind_name k' \<Longrightarrow> k = k'"
  by (rule inj_onD [of kind_name "set all_kinds"])
    (use kind_names_distinct in \<open>simp_all only: distinct_map all_kinds_complete\<close>)

lemma kind_name_eq: "kind_name k = kind_name k' \<longleftrightarrow> k = k'"
  using kind_name_inject by blast

lemma find_kind:
  "k \<in> set ks \<Longrightarrow> find (\<lambda>k'. kind_name k' = kind_name k) ks = Some k"
  by (induction ks) (simp_all only: find.simps kind_name_eq list.set insert_iff empty_iff split: if_split, blast)

lemma switch_kind_name [simp]: "switch_kind (kind_name k) = Some k"
  unfolding switch_kind_def by (rule find_kind [OF all_kinds_complete])

lemma switch_kind_Some: "switch_kind name = Some k \<longleftrightarrow> name = kind_name k"
proof
  assume "switch_kind name = Some k"
  then show "name = kind_name k"
    unfolding switch_kind_def find_Some_iff by (elim exE conjE) (simp only:)
qed (simp only: switch_kind_name)

section \<open>Resources and errors\<close>

datatype k8s_error =
    AlreadyExists
  | IsNotFound
  | ApiError string
  | InitFailed string
  | ConvertError string
  | UnsupportedCast
  | UnsupportedKind string
  | WrongType
  | DeadlineExceeded
  | Canceled

text \<open>The Go type behind the interface \<open>Resource\<close>.\<close>

datatype rtype = Unstructured | Typed kind | OtherType string

text \<open>
  What the code reads of the structs of the libraries: the replicas and the status of a
  Deployment or a StatefulSet, the names of the volume claim templates of a StatefulSet, the
  phase and the containers of a Pod. \<open>r_kind\<close> is the kind that the object says it has, in its
  \<open>TypeMeta\<close>; \<open>r_body\<close> is everything else.
\<close>

record workload =
  wl_replicas :: "32 word option"
  wl_generation :: int64
  wl_observedGeneration :: int64
  wl_readyReplicas :: "32 word"
  wl_availableReplicas :: "32 word"
  wl_updatedReplicas :: "32 word"

record pod_status =
  ps_phase :: string
  ps_containers :: "bool list"

record 'b resource =
  r_type :: rtype
  r_kind :: string
  r_name :: string
  r_namespace :: string
  r_workload :: workload
  r_templates :: "string list"
  r_pod :: pod_status
  r_body :: 'b

datatype propagation = Background | Orphan

record ('w, 'b) api =
  api_create :: "endpoint \<Rightarrow> 'b resource \<Rightarrow> 'w \<Rightarrow> k8s_error option \<times> 'w"
  api_update :: "endpoint \<Rightarrow> 'b resource \<Rightarrow> 'w \<Rightarrow> k8s_error option \<times> 'w"
  api_delete :: "endpoint \<Rightarrow> string \<Rightarrow> propagation \<Rightarrow> 'w \<Rightarrow> k8s_error option \<times> 'w"
  api_get :: "endpoint \<Rightarrow> string \<Rightarrow> 'w \<Rightarrow> (k8s_error + 'b resource) \<times> 'w"
  api_list :: "endpoint \<Rightarrow> 'w \<Rightarrow> (k8s_error + 'b resource list) \<times> 'w"

text \<open>
  What the code relies on, with \<open>store w\<close> the objects of every endpoint and \<open>admit\<close> what the
  server makes of an object when it stores it. A deleted object may stay for a while. Any
  operation may fail with an error of its own and then changes nothing.
\<close>

type_synonym ('w, 'b) store = "'w \<Rightarrow> endpoint \<Rightarrow> string \<Rightarrow> 'b resource option"

definition put_object ::
  "endpoint \<Rightarrow> string \<Rightarrow> 'b resource option \<Rightarrow> (endpoint \<Rightarrow> string \<Rightarrow> 'b resource option) \<Rightarrow>
    endpoint \<Rightarrow> string \<Rightarrow> 'b resource option" where
  "put_object ep name obj st = st(ep := (st ep)(name := obj))"

definition create_ok :: "('w, 'b) api \<Rightarrow> ('b resource option \<Rightarrow> 'b resource \<Rightarrow> 'b resource) \<Rightarrow> ('w, 'b) store \<Rightarrow> bool" where
  "create_ok api admit store \<longleftrightarrow>
     (\<forall>ep r w err w'. api_create api ep r w = (err, w') \<longrightarrow>
        (if err = None
         then store w ep (r_name r) = None \<and>
           store w' = put_object ep (r_name r) (Some (admit None r)) (store w)
         else store w' = store w \<and>
           (err = Some AlreadyExists \<longrightarrow> store w ep (r_name r) \<noteq> None)))"

definition update_ok :: "('w, 'b) api \<Rightarrow> ('b resource option \<Rightarrow> 'b resource \<Rightarrow> 'b resource) \<Rightarrow> ('w, 'b) store \<Rightarrow> bool" where
  "update_ok api admit store \<longleftrightarrow>
     (\<forall>ep r w err w'. api_update api ep r w = (err, w') \<longrightarrow>
        (if err = None
         then store w ep (r_name r) \<noteq> None \<and>
           store w' = put_object ep (r_name r) (Some (admit (store w ep (r_name r)) r)) (store w)
         else store w' = store w))"

definition delete_ok :: "('w, 'b) api \<Rightarrow> ('w, 'b) store \<Rightarrow> bool" where
  "delete_ok api store \<longleftrightarrow>
     (\<forall>ep name p w err w'. api_delete api ep name p w = (err, w') \<longrightarrow>
        store w' = store w \<or> err = None \<and> store w' = put_object ep name None (store w))"

definition get_ok :: "('w, 'b) api \<Rightarrow> ('w, 'b) store \<Rightarrow> bool" where
  "get_ok api store \<longleftrightarrow>
     (\<forall>ep name w r w'. api_get api ep name w = (r, w') \<longrightarrow>
        store w' = store w \<and>
        (case r of Inr obj \<Rightarrow> store w ep name = Some obj
         | Inl err \<Rightarrow> err = IsNotFound \<longrightarrow> store w ep name = None))"

text \<open>The client of no namespace lists the objects of all; its names are not unique.\<close>

fun one_namespace :: "endpoint \<Rightarrow> bool" where
  "one_namespace (Namespaced g res ns) = (ns \<noteq> [])"
| "one_namespace (ClusterWide g res) = True"

definition list_ok :: "('w, 'b) api \<Rightarrow> ('w, 'b) store \<Rightarrow> bool" where
  "list_ok api store \<longleftrightarrow>
     (\<forall>ep w r w'. api_list api ep w = (r, w') \<longrightarrow>
        store w' = store w \<and>
        (case r of Inl err \<Rightarrow> True
         | Inr items \<Rightarrow> one_namespace ep \<longrightarrow> distinct (map r_name items) \<and>
             (\<forall>n obj. store w ep n = Some obj \<longleftrightarrow> obj \<in> set items \<and> r_name obj = n)))"

definition api_ok :: "('w, 'b) api \<Rightarrow> ('b resource option \<Rightarrow> 'b resource \<Rightarrow> 'b resource) \<Rightarrow> ('w, 'b) store \<Rightarrow> bool" where
  "api_ok api admit store \<longleftrightarrow>
     create_ok api admit store \<and> update_ok api admit store \<and> delete_ok api store \<and>
     get_ok api store \<and> list_ok api store"

lemmas api_ok_defs = api_ok_def create_ok_def update_ok_def delete_ok_def get_ok_def list_ok_def

lemma api_create_ok:
  assumes "api_ok api admit store" and "api_create api ep r w = (err, w')"
  shows "err = None \<Longrightarrow> store w ep (r_name r) = None"
    and "err = None \<Longrightarrow> store w' = put_object ep (r_name r) (Some (admit None r)) (store w)"
    and "err \<noteq> None \<Longrightarrow> store w' = store w"
    and "err = Some AlreadyExists \<Longrightarrow> store w ep (r_name r) \<noteq> None"
  using assms by (auto simp: api_ok_def create_ok_def)

lemma api_update_ok:
  assumes "api_ok api admit store" and "api_update api ep r w = (err, w')"
  shows "err = None \<Longrightarrow>
      store w' = put_object ep (r_name r) (Some (admit (store w ep (r_name r)) r)) (store w)"
    and "err \<noteq> None \<Longrightarrow> store w' = store w"
  using assms by (auto simp: api_ok_def update_ok_def)

lemma api_delete_ok:
  assumes "api_ok api admit store" and "api_delete api ep name p w = (err, w')"
  shows "store w' = store w \<or> err = None \<and> store w' = put_object ep name None (store w)"
  using assms by (simp add: api_ok_def delete_ok_def)

lemma api_get_ok:
  assumes "api_ok api admit store" and "api_get api ep name w = (r, w')"
  shows "store w' = store w"
    and "r = Inr obj \<Longrightarrow> store w ep name = Some obj"
    and "r = Inl IsNotFound \<Longrightarrow> store w ep name = None"
proof -
  have "store w' = store w \<and>
      (case r of Inr obj \<Rightarrow> store w ep name = Some obj
       | Inl err \<Rightarrow> err = IsNotFound \<longrightarrow> store w ep name = None)"
    using assms unfolding api_ok_def get_ok_def by blast
  then show "store w' = store w" "r = Inr obj \<Longrightarrow> store w ep name = Some obj"
      "r = Inl IsNotFound \<Longrightarrow> store w ep name = None"
    by auto
qed

lemma api_list_ok:
  assumes "api_ok api admit store" and "api_list api ep w = (r, w')"
  shows "store w' = store w"
    and "r = Inr items \<Longrightarrow> one_namespace ep \<Longrightarrow> distinct (map r_name items)"
    and "r = Inr items \<Longrightarrow> one_namespace ep \<Longrightarrow>
      store w ep n = Some obj \<longleftrightarrow> obj \<in> set items \<and> r_name obj = n"
proof -
  have "store w' = store w \<and>
      (case r of Inl err \<Rightarrow> True
       | Inr items \<Rightarrow> one_namespace ep \<longrightarrow> distinct (map r_name items) \<and>
           (\<forall>n obj. store w ep n = Some obj \<longleftrightarrow> obj \<in> set items \<and> r_name obj = n))"
    using assms unfolding api_ok_def list_ok_def by blast
  then show "store w' = store w"
      "r = Inr items \<Longrightarrow> one_namespace ep \<Longrightarrow> distinct (map r_name items)"
      "r = Inr items \<Longrightarrow> one_namespace ep \<Longrightarrow>
        store w ep n = Some obj \<longleftrightarrow> obj \<in> set items \<and> r_name obj = n"
    by auto
qed

section \<open>\<open>Parse\<close> and \<open>EncodeYAML\<close>\<close>

text \<open>\<open>convert\<close> is the converter of unstructured content to a type.\<close>

definition Parse ::
  "(kind \<Rightarrow> 'b resource \<Rightarrow> k8s_error + 'b resource) \<Rightarrow> kind \<Rightarrow> 'b resource \<Rightarrow>
    k8s_error + 'b resource" where
  "Parse convert T r =
     (case r_type r of
        Unstructured \<Rightarrow> convert T r
      | Typed T' \<Rightarrow> if T' = T then Inr r else Inl UnsupportedCast
      | OtherType t \<Rightarrow> Inl UnsupportedCast)"

definition encodeYaml ::
  "(kind \<Rightarrow> 'b resource \<Rightarrow> k8s_error + 'b resource) \<Rightarrow> ('b resource \<Rightarrow> k8s_error + string) \<Rightarrow>
    kind \<Rightarrow> 'b resource \<Rightarrow> k8s_error + string" where
  "encodeYaml convert serialize T obj =
     (case Parse convert T obj of Inl err \<Rightarrow> Inl err | Inr t \<Rightarrow> serialize t)"

definition EncodeYAML ::
  "(kind \<Rightarrow> 'b resource \<Rightarrow> k8s_error + 'b resource) \<Rightarrow> ('b resource \<Rightarrow> k8s_error + string) \<Rightarrow>
    'b resource \<Rightarrow> k8s_error + string" where
  "EncodeYAML convert serialize obj =
     (case switch_kind (r_kind obj) of
        Some T \<Rightarrow> encodeYaml convert serialize T obj
      | None \<Rightarrow> Inl (UnsupportedKind (r_kind obj)))"

section \<open>\<open>Init\<close>\<close>

text \<open>What the libraries answer to \<open>Init\<close>: \<open>None\<close> is no error.\<close>

record init_env =
  in_cluster :: "k8s_error option"
  kubeconfig :: string
  default_file :: string
  build_config :: "string \<Rightarrow> k8s_error option"
  new_clientset :: "k8s_error option"
  new_ae_clientset :: "k8s_error option"

text \<open>The package variables \<open>once\<close>, \<open>clientset\<close> and \<open>aeClientset\<close>.\<close>

record clients =
  once_done :: bool
  has_clientset :: bool
  has_ae_clientset :: bool

definition no_clients :: clients where
  "no_clients = \<lparr>once_done = False, has_clientset = False, has_ae_clientset = False\<rparr>"

definition Init :: "init_env \<Rightarrow> clients \<Rightarrow> k8s_error option \<times> clients" where
  "Init env c =
     (if once_done c then (None, c)
      else
        let c = c\<lparr>once_done := True\<rparr>;
            kubeconfigPath = (if kubeconfig env = [] then default_file env else kubeconfig env);
            err = (if in_cluster env = None then None else build_config env kubeconfigPath)
        in if err \<noteq> None then (err, c)
           else if new_clientset env \<noteq> None then (new_clientset env, c)
           else if new_ae_clientset env \<noteq> None
           then (new_ae_clientset env, c\<lparr>has_clientset := True\<rparr>)
           else (None, c\<lparr>has_clientset := True, has_ae_clientset := True\<rparr>))"

text \<open>A call on a client; on a nil clientset it panics.\<close>

definition usable :: "clients \<Rightarrow> endpoint \<Rightarrow> bool" where
  "usable c ep = (if group_of ep = ApiextensionsV1 then has_ae_clientset c else has_clientset c)"

end
