(* ===== verification/K8s_Wait.thy ===== *)
theory K8s_Wait
  imports K8s_Resources
begin

text \<open>
  The waiting of \<open>k8s/k8s.go\<close>: \<open>waitForRemove\<close> and \<open>waitForRollout\<close> start a goroutine that
  polls the API server and wait for it, for the timer or for the context. A schedule says in
  which order these things happen and how the world changes in between; a schedule that ends
  too early leaves the call waiting (\<open>None\<close>). The theory shows what is true of the world
  when a wait ends without an error, and that the timer ends it.
\<close>

section \<open>The poller\<close>

text \<open>
  The goroutine of a wait: it polls, offers an error on the unbuffered channel \<open>done\<close>, or has
  closed \<open>done\<close>.
\<close>

datatype poller = Polling | Offering k8s_error | Finished

text \<open>
  \<open>Poll\<close> is one turn of the goroutine's loop, \<open>Evolve\<close> a change of the world by others,
  \<open>TakeDone\<close> the \<open>select\<close> when it looks at \<open>done\<close>, and \<open>TakeTimeout\<close> the \<open>select\<close> taking the
  timer or the context, with the error that the context gives.
\<close>

datatype 'w wait_event = Poll | Evolve "'w \<Rightarrow> 'w" | TakeDone | TakeTimeout k8s_error

type_synonym 'w schedule = "'w wait_event list"

text \<open>The error, nil or not, the world and what is left of the schedule.\<close>

type_synonym 'w wait_result = "(k8s_error option \<times> 'w \<times> 'w schedule) option"

fun wait_loop ::
  "('w \<Rightarrow> 'r \<times> 'w) \<Rightarrow> ('r \<Rightarrow> poller) \<Rightarrow> poller \<Rightarrow> 'w schedule \<Rightarrow> 'w \<Rightarrow> 'w wait_result" where
  "wait_loop get verdict p [] w = None"
| "wait_loop get verdict p (Poll # es) w =
     (if p = Polling
      then let (r, w') = get w in wait_loop get verdict (verdict r) es w'
      else wait_loop get verdict p es w)"
| "wait_loop get verdict p (Evolve f # es) w = wait_loop get verdict p es (f w)"
| "wait_loop get verdict p (TakeDone # es) w =
     (case p of
        Polling \<Rightarrow> wait_loop get verdict p es w
      | Offering err \<Rightarrow> Some (Some err, w, es)
      | Finished \<Rightarrow> Some (None, w, es))"
| "wait_loop get verdict p (TakeTimeout err # es) w = Some (Some err, w, es)"

text \<open>\<open>waitForRemove\<close>: the goroutine leaves when the server says that there is no object.\<close>

definition remove_verdict :: "k8s_error + 'b resource \<Rightarrow> poller" where
  "remove_verdict r = (if r = Inl IsNotFound then Finished else Polling)"

definition waitForRemove ::
  "('w, 'b) api \<Rightarrow> endpoint \<Rightarrow> string \<Rightarrow> 'w schedule \<Rightarrow> 'w \<Rightarrow> 'w wait_result" where
  "waitForRemove api ep name = wait_loop (api_get api ep name) remove_verdict Polling"

text \<open>\<open>waitForRollout\<close>: the status that a Deployment and a StatefulSet must have.\<close>

definition targetReplicas :: "workload \<Rightarrow> 32 word" where
  "targetReplicas v = (case wl_replicas v of None \<Rightarrow> 1 | Some n \<Rightarrow> n)"

definition rolled_out :: "workload \<Rightarrow> bool" where
  "rolled_out v \<longleftrightarrow>
     wl_generation v \<le> wl_observedGeneration v \<and>
     wl_readyReplicas v = targetReplicas v \<and>
     wl_availableReplicas v = targetReplicas v \<and>
     wl_updatedReplicas v = targetReplicas v"

definition rollout_verdict :: "kind \<Rightarrow> k8s_error + 'b resource \<Rightarrow> poller" where
  "rollout_verdict T r =
     (case r of
        Inl err \<Rightarrow> Offering err
      | Inr v \<Rightarrow>
          (case T of
             KindDeployment \<Rightarrow> if rolled_out (r_workload v) then Finished else Polling
           | KindStatefulSet \<Rightarrow> if rolled_out (r_workload v) then Finished else Polling
           | _ \<Rightarrow> Finished))"

definition waitForRollout ::
  "('w, 'b) api \<Rightarrow> kind \<Rightarrow> endpoint \<Rightarrow> string \<Rightarrow> 'w schedule \<Rightarrow> 'w \<Rightarrow> 'w wait_result" where
  "waitForRollout api T ep name = wait_loop (api_get api ep name) (rollout_verdict T) Polling"

section \<open>What a wait tells\<close>

text \<open>The worlds in which the goroutine polls before the wait ends.\<close>

fun polls ::
  "('w \<Rightarrow> 'r \<times> 'w) \<Rightarrow> ('r \<Rightarrow> poller) \<Rightarrow> poller \<Rightarrow> 'w schedule \<Rightarrow> 'w \<Rightarrow> 'w list" where
  "polls get verdict p [] w = []"
| "polls get verdict p (Poll # es) w =
     (if p = Polling
      then let (r, w') = get w in w # polls get verdict (verdict r) es w'
      else polls get verdict p es w)"
| "polls get verdict p (Evolve f # es) w = polls get verdict p es (f w)"
| "polls get verdict p (TakeDone # es) w = (if p = Polling then polls get verdict p es w else [])"
| "polls get verdict p (TakeTimeout err # es) w = []"

lemma polls_stopped [simp]: "p \<noteq> Polling \<Longrightarrow> polls get verdict p es w = []"
  by (induction get verdict p es w rule: polls.induct) auto

text \<open>The last poll decides, and the earlier ones let it go on.\<close>

lemma wait_loop_nil:
  assumes "wait_loop get verdict p es w = Some (None, w', es')" and "p = Polling"
  shows "\<exists>us v. polls get verdict p es w = us @ [v] \<and> verdict (fst (get v)) = Finished \<and>
    (\<forall>u \<in> set us. verdict (fst (get u)) = Polling)"
  using assms
proof (induction get verdict p es w rule: wait_loop.induct)
  case (2 get verdict p es w)
  obtain r w1 where get: "get w = (r, w1)" by fastforce
  show ?case
  proof (cases "verdict r = Polling")
    case True
    have "\<exists>us v. polls get verdict (verdict r) es w1 = us @ [v] \<and> verdict (fst (get v)) = Finished \<and>
        (\<forall>u \<in> set us. verdict (fst (get u)) = Polling)"
      using 2 get True by simp
    then obtain us v where "polls get verdict (verdict r) es w1 = us @ [v]"
        "verdict (fst (get v)) = Finished" "\<forall>u \<in> set us. verdict (fst (get u)) = Polling"
      by blast
    then show ?thesis
      using 2(4) get True by (intro exI [of _ "w # us"] exI [of _ v]) simp
  next
    case False
    have "wait_loop get verdict q es w1 = Some (None, w', es') \<Longrightarrow> q \<noteq> Polling \<Longrightarrow> q = Finished" for q
      by (induction get verdict q es w1 rule: wait_loop.induct) (auto split: poller.splits)
    then have "verdict r = Finished" using 2(3,4) get False by simp
    then show ?thesis using 2(4) get False by (intro exI [of _ "[]"] exI [of _ w]) simp
  qed
qed auto

lemma wait_loop_returns: "TakeTimeout err \<in> set es \<Longrightarrow> wait_loop get verdict p es w \<noteq> None"
  by (induction get verdict p es w rule: wait_loop.induct) (auto split: poller.splits prod.splits)

lemma wait_loop_suffix: "wait_loop get verdict p es w = Some (err, w', es') \<Longrightarrow> \<exists>ds. es = ds @ es'"
  by (induction get verdict p es w rule: wait_loop.induct)
    (auto split: poller.splits prod.splits if_splits, metis append_Cons)

lemma wait_loop_store:
  assumes "\<And>w r w'. get w = (r, w') \<Longrightarrow> store w' = store w" and "\<forall>f. Evolve f \<notin> set es"
    and "wait_loop get verdict p es w = Some (err, w', es')"
  shows "store w' = (store w :: 's)"
  using assms(2,3,1)
  by (induction get verdict p es w rule: wait_loop.induct)
    (auto split: poller.splits prod.splits if_splits)

text \<open>
  What a caller of a wait relies on, whatever is waited for: the goroutine closes \<open>done\<close> only on
  an answer that it was to wait for.
\<close>

locale awaited =
  fixes verdict :: "'r \<Rightarrow> poller"
    and reached :: "'r \<Rightarrow> bool"
  assumes finished: "verdict r = Finished \<Longrightarrow> reached r"
begin

lemma wait_reached:
  assumes "wait_loop get verdict Polling es w = Some (None, w', es')"
  shows "\<exists>v \<in> set (polls get verdict Polling es w). reached (fst (get v))"
proof -
  obtain us v where "polls get verdict Polling es w = us @ [v]" "verdict (fst (get v)) = Finished"
    using wait_loop_nil [OF assms refl] by blast
  then show ?thesis using finished by auto
qed

end

interpretation gone: awaited remove_verdict "\<lambda>r. r = Inl IsNotFound"
  by unfold_locales (simp add: remove_verdict_def split: if_splits)

interpretation there: awaited "rollout_verdict T"
    "\<lambda>r. \<exists>obj. r = Inr obj \<and> (T \<in> {KindDeployment, KindStatefulSet} \<longrightarrow> rolled_out (r_workload obj))"
  for T
  by unfold_locales (auto simp: rollout_verdict_def split: sum.splits if_splits)

lemma waitForRollout_nil:
  assumes "api_ok api admit store" and "T \<in> {KindDeployment, KindStatefulSet}"
    and "waitForRollout api T ep name sched w = Some (None, w', rest)"
  shows "\<exists>v \<in> set (polls (api_get api ep name) (rollout_verdict T) Polling sched w).
    \<exists>obj. store v ep name = Some obj \<and> rolled_out (r_workload obj)"
proof -
  obtain v obj where v: "v \<in> set (polls (api_get api ep name) (rollout_verdict T) Polling sched w)"
      and obj: "fst (api_get api ep name v) = Inr obj" "rolled_out (r_workload obj)"
    using there.wait_reached [OF assms(3) [unfolded waitForRollout_def]] assms(2) by blast
  have "store v ep name = Some obj"
    using api_get_ok(2) [OF assms(1) prod.collapse [symmetric] obj(1)] .
  then show ?thesis using v obj(2) by blast
qed

lemma waitForRemove_nil:
  assumes "api_ok api admit store"
    and "waitForRemove api ep name sched w = Some (None, w', rest)"
  shows "\<exists>v \<in> set (polls (api_get api ep name) remove_verdict Polling sched w). store v ep name = None"
proof -
  obtain v where v: "v \<in> set (polls (api_get api ep name) remove_verdict Polling sched w)"
      and get: "fst (api_get api ep name v) = Inl IsNotFound"
    using gone.wait_reached [OF assms(2) [unfolded waitForRemove_def]] by blast
  have "store v ep name = None"
    using api_get_ok(3) [OF assms(1) prod.collapse [symmetric] get] .
  then show ?thesis using v by blast
qed

end
