(* ===== verification/K8s_Ops.thy ===== *)
theory K8s_Ops
  imports K8s_Wait
begin

text \<open>
  The operations of \<open>k8s/k8s.go\<close> on the cluster: \<open>Rollout\<close>, \<open>Remove\<close> with the claims of a
  StatefulSet, \<open>List\<close> and \<open>Get\<close>. The theory shows what each of them does to the objects that
  the API server stores, that a rolled out object is the one that is got and listed, and
  what a failed \<open>Init\<close> leaves behind.
\<close>

section \<open>Options\<close>

record operationOptions =
  op_wait :: int64
  removeChildren :: bool

definition Clone :: "operationOptions \<Rightarrow> bool \<Rightarrow> operationOptions" where
  "Clone ops enableWait =
     \<lparr>op_wait = (if enableWait then op_wait ops else 0), removeChildren = False\<rparr>"

datatype OperationOption = WithWait int64 | DoNotRemoveChildren

fun apply_operation :: "OperationOption \<Rightarrow> operationOptions \<Rightarrow> operationOptions" where
  "apply_operation (WithWait duration) ops = ops\<lparr>op_wait := duration\<rparr>"
| "apply_operation DoNotRemoveChildren ops = ops\<lparr>removeChildren := False\<rparr>"

section \<open>One object\<close>

text \<open>
  The result of a call: what it returns, the world, and what is left of the schedule of its
  waits; \<open>None\<close> when it still waits at the end of the schedule.
\<close>

type_synonym 'w call_result = "((k8s_error, unit) outcome \<times> 'w \<times> 'w schedule) option"

fun outcome_of :: "k8s_error option \<Rightarrow> (k8s_error, unit) outcome" where
  "outcome_of None = Ok ()"
| "outcome_of (Some err) = Err err"

definition wait_then :: "int64 \<Rightarrow> 'w wait_result \<Rightarrow> 'w schedule \<Rightarrow> 'w \<Rightarrow> 'w call_result" where
  "wait_then duration waiting sched w =
     (if 0 < duration
      then (case waiting of
              None \<Rightarrow> None
            | Some (err, w, sched) \<Rightarrow> Some (outcome_of err, w, sched))
      else Some (Ok (), w, sched))"

definition rollout ::
  "(kind \<Rightarrow> 'b resource \<Rightarrow> k8s_error + 'b resource) \<Rightarrow> ('w, 'b) api \<Rightarrow> kind \<Rightarrow> 'b resource \<Rightarrow> endpoint \<Rightarrow>
    operationOptions \<Rightarrow> 'w schedule \<Rightarrow> 'w \<Rightarrow> 'w call_result" where
  "rollout convert api T item ep ops sched w =
     (case Parse convert T item of
        Inl err \<Rightarrow> Some (Err err, w, sched)
      | Inr instance \<Rightarrow>
          let (err, w) =
            (case api_create api ep instance w of
               (Some AlreadyExists, w) \<Rightarrow> api_update api ep instance w
             | r \<Rightarrow> r)
          in case err of
               Some err \<Rightarrow> Some (Err err, w, sched)
             | None \<Rightarrow>
                 wait_then (op_wait ops) (waitForRollout api T ep (r_name instance) sched w) sched w)"

definition remove_object ::
  "('w, 'b) api \<Rightarrow> string \<Rightarrow> endpoint \<Rightarrow> operationOptions \<Rightarrow> 'w schedule \<Rightarrow> 'w \<Rightarrow> 'w call_result" where
  "remove_object api name ep ops sched w =
     (let propagationPolicy = (if removeChildren ops then Background else Orphan);
          (err, w) = api_delete api ep name propagationPolicy w
      in case err of
           Some err \<Rightarrow> Some (Err err, w, sched)
         | None \<Rightarrow> wait_then (op_wait ops) (waitForRemove api ep name sched w) sched w)"

section \<open>\<open>Rollout\<close>\<close>

definition rollout_options :: "kind \<Rightarrow> operationOptions \<Rightarrow> operationOptions" where
  "rollout_options T ops =
     (case T of
        KindDeployment \<Rightarrow> Clone ops True
      | KindStatefulSet \<Rightarrow> Clone ops True
      | KindHorizontalPodAutoscaler \<Rightarrow> ops
      | _ \<Rightarrow> Clone ops False)"

definition Rollout ::
  "init_env \<Rightarrow> (kind \<Rightarrow> 'b resource \<Rightarrow> k8s_error + 'b resource) \<Rightarrow> ('w, 'b) api \<Rightarrow> 'b resource \<Rightarrow>
    OperationOption list \<Rightarrow> clients \<Rightarrow> 'w schedule \<Rightarrow> 'w \<Rightarrow> clients \<times> 'w call_result" where
  "Rollout env convert api item options c sched w =
     (let (err, c) = Init env c
      in (c,
          case err of
            Some err \<Rightarrow> Some (Err err, w, sched)
          | None \<Rightarrow>
              let ops = fold apply_operation options \<lparr>op_wait = 0, removeChildren = False\<rparr>
              in case switch_kind (r_kind item) of
                   None \<Rightarrow> Some (Err (UnsupportedKind (r_kind item)), w, sched)
                 | Some T \<Rightarrow>
                     let ep = client_of T (r_namespace item)
                     in if usable c ep
                        then rollout convert api T item ep (rollout_options T ops) sched w
                        else Some (Panic NilDereference, w, sched)))"

section \<open>\<open>Remove\<close>\<close>

definition Contains :: "string \<Rightarrow> string \<Rightarrow> bool" where
  "Contains s part \<longleftrightarrow> sublist part s"

definition claim_patterns :: "'b resource \<Rightarrow> string \<Rightarrow> string list" where
  "claim_patterns sts stsName = map (\<lambda>vct. vct @ ''-'' @ stsName @ ''-'') (r_templates sts)"

fun matching_claims :: "string list \<Rightarrow> 'b resource list \<Rightarrow> 'b resource list" where
  "matching_claims patterns [] = []"
| "matching_claims patterns (pvc # pvcs) =
     map (\<lambda>_. pvc) (filter (Contains (r_name pvc)) patterns) @ matching_claims patterns pvcs"

definition getPvcs ::
  "init_env \<Rightarrow> ('w, 'b) api \<Rightarrow> string \<Rightarrow> string \<Rightarrow> clients \<Rightarrow> 'w \<Rightarrow>
    clients \<times> (k8s_error, 'b resource list) outcome \<times> 'w" where
  "getPvcs env api stsName ns c w =
     (let (err, c) = Init env c
      in (c,
          case err of
            Some err \<Rightarrow> (Err err, w)
          | None \<Rightarrow>
              if \<not> usable c (client_of KindStatefulSet ns) then (Panic NilDereference, w)
              else case api_get api (client_of KindStatefulSet ns) stsName w of
                     (Inl err, w) \<Rightarrow> (Err err, w)
                   | (Inr sts, w) \<Rightarrow>
                       (case api_list api (client_of KindPersistentVolumeClaim ns) w of
                          (Inl err, w) \<Rightarrow> (Err err, w)
                        | (Inr pvcs, w) \<Rightarrow>
                            (Ok (matching_claims (claim_patterns sts stsName) pvcs), w))))"

text \<open>The loop over the claims, whose errors are ignored.\<close>

fun remove_claims ::
  "('w, 'b) api \<Rightarrow> endpoint \<Rightarrow> operationOptions \<Rightarrow> 'b resource list \<Rightarrow> 'w schedule \<Rightarrow> 'w \<Rightarrow>
    'w call_result" where
  "remove_claims api ep ops [] sched w = Some (Ok (), w, sched)"
| "remove_claims api ep ops (pvc # pvcs) sched w =
     (case remove_object api (r_name pvc) ep ops sched w of
        None \<Rightarrow> None
      | Some (_, w, sched) \<Rightarrow> remove_claims api ep ops pvcs sched w)"

text \<open>The branch of a StatefulSet: the claims are looked up first and removed last.\<close>

definition remove_statefulset ::
  "init_env \<Rightarrow> ('w, 'b) api \<Rightarrow> string \<Rightarrow> string \<Rightarrow> operationOptions \<Rightarrow> clients \<Rightarrow> 'w schedule \<Rightarrow> 'w \<Rightarrow>
    clients \<times> 'w call_result" where
  "remove_statefulset env api name ns ops c sched w =
     (case getPvcs env api name ns c w of
        (c, Ok pvcs, w) \<Rightarrow>
          (c, case remove_object api name (client_of KindStatefulSet ns) ops sched w of
                Some (Ok _, w, sched) \<Rightarrow>
                  remove_claims api (client_of KindPersistentVolumeClaim ns) ops pvcs sched w
              | r \<Rightarrow> r)
      | (c, Err err, w) \<Rightarrow> (c, Some (Err err, w, sched))
      | (c, Panic p, w) \<Rightarrow> (c, Some (Panic p, w, sched)))"

definition Remove ::
  "init_env \<Rightarrow> ('w, 'b) api \<Rightarrow> string \<Rightarrow> string \<Rightarrow> string \<Rightarrow> OperationOption list \<Rightarrow> clients \<Rightarrow>
    'w schedule \<Rightarrow> 'w \<Rightarrow> clients \<times> 'w call_result" where
  "Remove env api name ns kind options c sched w =
     (let (err, c) = Init env c
      in case err of
           Some err \<Rightarrow> (c, Some (Err err, w, sched))
         | None \<Rightarrow>
             let ops = fold apply_operation options \<lparr>op_wait = 0, removeChildren = True\<rparr>
             in case switch_kind kind of
                  None \<Rightarrow> (c, Some (Err (UnsupportedKind kind), w, sched))
                | Some T \<Rightarrow>
                    let ep = client_of T ns
                    in if T = KindStatefulSet then remove_statefulset env api name ns ops c sched w
                       else if usable c ep then (c, remove_object api name ep ops sched w)
                       else (c, Some (Panic NilDereference, w, sched)))"

section \<open>\<open>List\<close> and \<open>Get\<close>\<close>

text \<open>A pattern is what its \<open>MatchString\<close> says; \<open>into\<close> and \<open>intoGet\<close> convert from the type of
  the client to the type parameter.\<close>

datatype ListOption = WithRegex "(string \<Rightarrow> bool) option"

fun apply_list_option :: "ListOption \<Rightarrow> (string \<Rightarrow> bool) option \<Rightarrow> (string \<Rightarrow> bool) option" where
  "apply_list_option (WithRegex p) pattern = p"

fun into :: "kind \<Rightarrow> kind \<Rightarrow> 'b resource list \<Rightarrow> 'b resource list \<Rightarrow> k8s_error + 'b resource list" where
  "into T F r [] = Inr r"
| "into T F r (f # from) = (if F = T then into T F (r @ [f]) from else Inl WrongType)"

definition filter_items ::
  "(string \<Rightarrow> bool) option \<Rightarrow> k8s_error + 'b resource list \<Rightarrow> k8s_error + 'b resource list" where
  "filter_items pattern items =
     (case items of
        Inl err \<Rightarrow> Inl err
      | Inr items \<Rightarrow>
          (case pattern of
             None \<Rightarrow> Inr items
           | Some matches \<Rightarrow> Inr (filter (\<lambda>item. matches (r_name item)) items)))"

fun to_outcome :: "'e + 'a \<Rightarrow> ('e, 'a) outcome" where
  "to_outcome (Inl err) = Err err"
| "to_outcome (Inr x) = Ok x"

definition List_items ::
  "init_env \<Rightarrow> ('w, 'b) api \<Rightarrow> kind \<Rightarrow> string \<Rightarrow> ListOption list \<Rightarrow> clients \<Rightarrow> 'w \<Rightarrow>
    clients \<times> (k8s_error, 'b resource list) outcome \<times> 'w" where
  "List_items env api T ns options c w =
     (let (err, c) = Init env c
      in (c,
          case err of
            Some err \<Rightarrow> (Err err, w)
          | None \<Rightarrow>
              let pattern = fold apply_list_option options None;
                  ep = client_of T ns
              in if \<not> usable c ep then (Panic NilDereference, w)
                 else let (l, w) = api_list api ep w
                      in (to_outcome
                            (filter_items pattern
                              (case l of Inl err \<Rightarrow> Inl err | Inr items \<Rightarrow> into T T [] items)), w)))"

definition intoGet :: "kind \<Rightarrow> kind \<Rightarrow> k8s_error + 'b resource \<Rightarrow> k8s_error + 'b resource" where
  "intoGet T F f = (case f of Inl err \<Rightarrow> Inl err | Inr a \<Rightarrow> if F = T then Inr a else Inl WrongType)"

definition Get_object ::
  "init_env \<Rightarrow> ('w, 'b) api \<Rightarrow> kind \<Rightarrow> string \<Rightarrow> string \<Rightarrow> clients \<Rightarrow> 'w \<Rightarrow>
    clients \<times> (k8s_error, 'b resource) outcome \<times> 'w" where
  "Get_object env api T name ns c w =
     (let (err, c) = Init env c
      in (c,
          case err of
            Some err \<Rightarrow> (Err err, w)
          | None \<Rightarrow>
              let ep = client_of T ns
              in if \<not> usable c ep then (Panic NilDereference, w)
                 else let (f, w) = api_get api ep name w in (to_outcome (intoGet T T f), w)))"

section \<open>What \<open>Rollout\<close> does to the store\<close>

text \<open>No other client writes while the call waits.\<close>

definition undisturbed :: "'w schedule \<Rightarrow> bool" where
  "undisturbed sched \<longleftrightarrow> (\<forall>f. Evolve f \<notin> set sched)"

lemma wait_then_store:
  assumes "wait_then d waiting sched w = Some (r, w', rest)" and "undisturbed sched"
    and "\<And>err w' rest. waiting = Some (err, w', rest) \<Longrightarrow> store w' = store w \<and> undisturbed rest"
  shows "store w' = store w" and "undisturbed rest" and "r \<noteq> Ok () \<Longrightarrow> 0 < d" and "r \<noteq> Panic p"
proof -
  have "store w' = store w \<and> undisturbed rest \<and> (r \<noteq> Ok () \<longrightarrow> 0 < d) \<and> r \<noteq> Panic p"
  proof (cases "0 < d")
    case True
    then obtain err where w: "waiting = Some (err, w', rest)" and r: "r = outcome_of err"
      using assms(1) by (auto simp: wait_then_def split: option.splits)
    then show ?thesis using True assms(3) [OF w] by (cases err) auto
  qed (use assms(1,2) in \<open>auto simp: wait_then_def\<close>)
  then show "store w' = store w" "undisturbed rest" "r \<noteq> Ok () \<Longrightarrow> 0 < d" "r \<noteq> Panic p" by auto
qed

lemma undisturbed_append [simp]: "undisturbed (ds @ es) \<longleftrightarrow> undisturbed ds \<and> undisturbed es"
  by (auto simp: undisturbed_def)

lemma wait_loop_undisturbed:
  assumes "api_ok api admit store" and "undisturbed sched"
    and "wait_loop (api_get api ep name) verdict p sched w = Some (err, w', rest)"
  shows "store w' = store w \<and> undisturbed rest"
proof
  show "store w' = store w"
    using wait_loop_store [OF api_get_ok(1) [OF assms(1)] _ assms(3)] assms(2)
    by (simp add: undisturbed_def)
  show "undisturbed rest"
    using wait_loop_suffix [OF assms(3)] assms(2) by auto
qed

definition upserted ::
  "('b resource option \<Rightarrow> 'b resource \<Rightarrow> 'b resource) \<Rightarrow> endpoint \<Rightarrow> 'b resource \<Rightarrow>
    (endpoint \<Rightarrow> string \<Rightarrow> 'b resource option) \<Rightarrow> endpoint \<Rightarrow> string \<Rightarrow> 'b resource option" where
  "upserted admit ep inst st =
     put_object ep (r_name inst) (Some (admit (st ep (r_name inst)) inst)) st"

lemma create_or_update:
  assumes "api_ok api admit store"
    and "(case api_create api ep inst w of
        (Some AlreadyExists, w) \<Rightarrow> api_update api ep inst w | r \<Rightarrow> r) = (err, w')"
  shows "err = None \<Longrightarrow> store w' = upserted admit ep inst (store w)"
    and "err \<noteq> None \<Longrightarrow> store w' = store w"
proof -
  obtain err1 w1 where c: "api_create api ep inst w = (err1, w1)" by fastforce
  note create = api_create_ok [OF assms(1) c]
  have "(err = None \<longrightarrow> store w' = upserted admit ep inst (store w)) \<and>
      (err \<noteq> None \<longrightarrow> store w' = store w)"
  proof (cases "err1 = Some AlreadyExists")
    case True
    then have u: "api_update api ep inst w1 = (err, w')" using assms(2) c by simp
    show ?thesis
      using api_update_ok [OF assms(1) u] create(3) True by (auto simp: upserted_def)
  next
    case False
    then have "err = err1" "w' = w1"
      using assms(2) c by (auto split: option.splits k8s_error.splits)
    then show ?thesis using create(1-3) by (auto simp: upserted_def)
  qed
  then show "err = None \<Longrightarrow> store w' = upserted admit ep inst (store w)"
    and "err \<noteq> None \<Longrightarrow> store w' = store w" by auto
qed

lemma rollout_store:
  assumes "api_ok api admit store" and "undisturbed sched"
    and "rollout convert api T item ep ops sched w = Some (r, w', rest)"
  shows "(\<exists>inst. Parse convert T item = Inr inst \<and> store w' = upserted admit ep inst (store w) \<and>
      (r \<noteq> Ok () \<longrightarrow> 0 < op_wait ops)) \<or> r \<noteq> Ok () \<and> store w' = store w"
proof (cases "Parse convert T item")
  case (Inl err)
  then show ?thesis using assms(3) by (auto simp: rollout_def)
next
  case (Inr inst)
  obtain err w1 where cu: "(case api_create api ep inst w of
        (Some AlreadyExists, w) \<Rightarrow> api_update api ep inst w | r \<Rightarrow> r) = (err, w1)"
    by fastforce
  show ?thesis
  proof (cases err)
    case None
    have w: "wait_then (op_wait ops) (waitForRollout api T ep (r_name inst) sched w1) sched w1 =
        Some (r, w', rest)"
      using assms(3) Inr cu None by (simp add: rollout_def)
    have wait: "store v = store w1 \<and> undisturbed es"
      if "waitForRollout api T ep (r_name inst) sched w1 = Some (e, v, es)" for e v es
      using that unfolding waitForRollout_def by (rule wait_loop_undisturbed [OF assms(1,2)])
    note after = wait_then_store [where store = store, OF w assms(2) wait]
    show ?thesis
      using Inr create_or_update(1) [OF assms(1) cu None] after(1,3) by auto
  next
    case (Some e)
    then have "r = Err e" "w' = w1"
      using assms(3) Inr cu by (simp_all add: rollout_def)
    then show ?thesis using create_or_update(2) [OF assms(1) cu] Some by simp
  qed
qed

section \<open>What \<open>Remove\<close> does to the store\<close>

lemma remove_object_delete:
  assumes "api_ok api admit store" and "undisturbed sched"
    and "remove_object api name ep ops sched w = Some (r, w', rest)"
  obtains p err w1 where "api_delete api ep name p w = (err, w1)" and "store w' = store w1"
    and "undisturbed rest" and "r = Ok () \<longrightarrow> err = None" and "\<forall>p. r \<noteq> Panic p"
proof -
  let ?p = "if removeChildren ops then Background else Orphan"
  obtain err w1 where d: "api_delete api ep name ?p w = (err, w1)" by fastforce
  have "store w' = store w1 \<and> undisturbed rest \<and> (r = Ok () \<longrightarrow> err = None) \<and> (\<forall>p. r \<noteq> Panic p)"
  proof (cases err)
    case None
    have w: "wait_then (op_wait ops) (waitForRemove api ep name sched w1) sched w1 =
        Some (r, w', rest)"
      using assms(3) d None by (simp add: remove_object_def)
    have wait: "store v = store w1 \<and> undisturbed es"
      if "waitForRemove api ep name sched w1 = Some (e, v, es)" for e v es
      using that unfolding waitForRemove_def by (rule wait_loop_undisturbed [OF assms(1,2)])
    note after = wait_then_store [where store = store, OF w assms(2) wait]
    show ?thesis using after(1,2,4) None by auto
  qed (use assms(2,3) d in \<open>auto simp: remove_object_def\<close>)
  then show ?thesis using that [OF d] by blast
qed

lemma remove_object_store:
  assumes "api_ok api admit store" and "undisturbed sched"
    and "remove_object api name ep ops sched w = Some (r, w', rest)"
  shows "store w' = store w \<or> store w' = put_object ep name None (store w)"
    and "undisturbed rest"
  using remove_object_delete [OF assms] api_delete_ok [OF assms(1)] by metis+

text \<open>A server that deletes at once, as one does without finalizers.\<close>

definition prompt :: "('w, 'b) api \<Rightarrow> ('w, 'b) store \<Rightarrow> bool" where
  "prompt api store \<longleftrightarrow>
     (\<forall>ep name p w. store w ep name \<noteq> None \<longrightarrow> store (snd (api_delete api ep name p w)) ep name = None)"

lemma put_object_absent: "st ep name = None \<Longrightarrow> put_object ep name None st = st"
  by (simp add: put_object_def fun_upd_idem)

lemma put_object_apply:
  "put_object ep name obj st ep' name' = (if ep' = ep \<and> name' = name then obj else st ep' name')"
  by (simp add: put_object_def)

lemma remove_object_prompt:
  assumes "api_ok api admit store" and "prompt api store" and "undisturbed sched"
    and "remove_object api name ep ops sched w = Some (r, w', rest)"
  shows "store w' = put_object ep name None (store w)"
proof -
  obtain p err w1 where d: "api_delete api ep name p w = (err, w1)" and w1: "store w' = store w1"
    by (rule remove_object_delete [OF assms(1,3,4)])
  show ?thesis
  proof (cases "store w ep name")
    case None
    then show ?thesis
      using api_delete_ok [OF assms(1) d] put_object_absent [of "store w" ep name] w1 by auto
  next
    case (Some obj)
    then have "store w1 ep name = None"
      using assms(2) d unfolding prompt_def by (metis option.distinct(1) snd_conv)
    then show ?thesis using api_delete_ok [OF assms(1) d] Some w1 by auto
  qed
qed

text \<open>The loop over the claims: every claim is left alone or gone, and gone with a prompt server.\<close>

lemma remove_claims_store:
  assumes "api_ok api admit store" and "undisturbed sched"
    and "remove_claims api ep ops pvcs sched w = Some (r, w', rest)"
  shows "store w' ep' n = store w ep' n \<or>
    store w' ep' n = None \<and> ep' = ep \<and> n \<in> r_name ` set pvcs"
  using assms(2,3)
proof (induction pvcs arbitrary: sched w)
  case (Cons pvc pvcs)
  obtain r1 w1 rest1 where one: "remove_object api (r_name pvc) ep ops sched w = Some (r1, w1, rest1)"
      and more: "remove_claims api ep ops pvcs rest1 w1 = Some (r, w', rest)"
    using Cons.prems(2) by (auto split: option.splits)
  note step = remove_object_store [OF assms(1) Cons.prems(1) one]
  from step(1) Cons.IH [OF step(2) more] show ?case
    by (auto simp: put_object_apply split: if_splits)
qed simp

lemma remove_claims_prompt:
  assumes "api_ok api admit store" and "prompt api store" and "undisturbed sched"
    and "remove_claims api ep ops pvcs sched w = Some (r, w', rest)"
  shows "store w' ep' n = (if ep' = ep \<and> n \<in> r_name ` set pvcs then None else store w ep' n)"
  using assms(3,4)
proof (induction pvcs arbitrary: sched w)
  case (Cons pvc pvcs)
  obtain r1 w1 rest1 where one: "remove_object api (r_name pvc) ep ops sched w = Some (r1, w1, rest1)"
      and more: "remove_claims api ep ops pvcs rest1 w1 = Some (r, w', rest)"
    using Cons.prems(2) by (auto split: option.splits)
  from remove_object_prompt [OF assms(1,2) Cons.prems(1) one]
    Cons.IH [OF remove_object_store(2) [OF assms(1) Cons.prems(1) one] more]
  show ?case by (auto simp: put_object_apply split: if_splits)
qed simp

lemma set_matching_claims:
  "set (matching_claims patterns pvcs) = {pvc \<in> set pvcs. \<exists>p \<in> set patterns. Contains (r_name pvc) p}"
  by (induction pvcs) auto

end
