(* ===== verification/K8s_Cluster.thy ===== *)
theory K8s_Cluster
  imports K8s_Ops
begin

text \<open>
  What the operations of \<open>k8s/k8s.go\<close> guarantee to a caller, over the objects that the API
  server stores.
\<close>

section \<open>\<open>Remove\<close>, step by step\<close>

text \<open>The objects that \<open>Remove\<close> is about.\<close>

definition removes ::
  "(endpoint \<Rightarrow> string \<Rightarrow> 'b resource option) \<Rightarrow> kind \<Rightarrow> string \<Rightarrow> string \<Rightarrow> endpoint \<Rightarrow> string \<Rightarrow> bool" where
  "removes st T ns name ep n \<longleftrightarrow>
     ep = client_of T ns \<and> n = name \<or>
     T = KindStatefulSet \<and> ep = client_of KindPersistentVolumeClaim ns \<and>
     (\<exists>sts vct. st (client_of T ns) name = Some sts \<and> vct \<in> set (r_templates sts) \<and>
        Contains n (vct @ ''-'' @ name @ ''-''))"

definition claims_listed ::
  "(endpoint \<Rightarrow> string \<Rightarrow> 'b resource option) \<Rightarrow> string \<Rightarrow> 'b resource list \<Rightarrow> bool" where
  "claims_listed st ns items \<longleftrightarrow>
     (ns \<noteq> [] \<longrightarrow> (\<forall>n obj. st (client_of KindPersistentVolumeClaim ns) n = Some obj \<longleftrightarrow>
        obj \<in> set items \<and> r_name obj = n))"

text \<open>\<open>getPvcs\<close> changes nothing; its claims are those of the stored StatefulSet.\<close>

definition claims_found ::
  "(endpoint \<Rightarrow> string \<Rightarrow> 'b resource option) \<Rightarrow> string \<Rightarrow> string \<Rightarrow> 'b resource list \<Rightarrow> bool" where
  "claims_found st ns name claims \<longleftrightarrow>
     (\<exists>sts items. st (client_of KindStatefulSet ns) name = Some sts \<and>
        claims = matching_claims (claim_patterns sts name) items \<and> claims_listed st ns items)"

lemma getPvcs_run:
  assumes "getPvcs env api name ns c w = (c', r, w')"
    and "api_get api (client_of KindStatefulSet ns) name w = (g, w1)"
    and "api_list api (client_of KindPersistentVolumeClaim ns) w1 = (l, w2)"
  obtains (early) "w' = w" "\<forall>pvcs. r \<noteq> Ok pvcs"
  | (no_sts) "w' = w1" "\<forall>pvcs. r \<noteq> Ok pvcs"
  | (no_claims) "w' = w2" "\<forall>pvcs. r \<noteq> Ok pvcs"
  | (found) sts items where "g = Inr sts" "l = Inr items" "w' = w2"
      "r = Ok (matching_claims (claim_patterns sts name) items)"
  using assms
  by (auto simp: getPvcs_def Let_def split: prod.splits option.splits if_splits sum.splits)

lemma getPvcs_store:
  assumes "api_ok api admit store" and "getPvcs env api name ns c w = (c', r, w')"
  shows "store w' = store w" and "r = Ok claims \<Longrightarrow> claims_found (store w) ns name claims"
proof -
  obtain g w1 where g: "api_get api (client_of KindStatefulSet ns) name w = (g, w1)" by fastforce
  obtain l w2 where l: "api_list api (client_of KindPersistentVolumeClaim ns) w1 = (l, w2)" by fastforce
  note get = api_get_ok [OF assms(1) g] and lists = api_list_ok [OF assms(1) l]
  have "store w' = store w \<and> (r = Ok claims \<longrightarrow> claims_found (store w) ns name claims)"
    using assms(2) g l
  proof (cases rule: getPvcs_run)
    case (found sts items)
    have "claims_listed (store w) ns items"
      using lists(3) [OF found(2)] get(1) by (simp add: claims_listed_def)
    then show ?thesis
      using found get(1) get(2) [OF found(1)] lists(1) by (auto simp: claims_found_def)
  qed (use get(1) lists(1) in auto)
  then show "store w' = store w" "r = Ok claims \<Longrightarrow> claims_found (store w) ns name claims" by auto
qed

text \<open>The branch of a StatefulSet.\<close>

lemma remove_statefulset_cases:
  assumes "api_ok api admit store"
    and "remove_statefulset env api name ns ops c sched w = (c', Some (r, w', rest))"
  obtains
    (early) "r \<noteq> Ok ()" "store w' = store w"
  | (failed) w1 where "r \<noteq> Ok ()" "store w1 = store w"
      "remove_object api name (client_of KindStatefulSet ns) ops sched w1 = Some (r, w', rest)"
  | (through) claims w1 w2 rest1 where "store w1 = store w" "claims_found (store w) ns name claims"
      "remove_object api name (client_of KindStatefulSet ns) ops sched w1 = Some (Ok (), w2, rest1)"
      "remove_claims api (client_of KindPersistentVolumeClaim ns) ops claims rest1 w2 = Some (r, w', rest)"
proof -
  obtain c1 q w1 where pvcs: "getPvcs env api name ns c w = (c1, q, w1)"
    by (metis prod_cases3)
  note st = getPvcs_store [OF assms(1) pvcs]
  show ?thesis
  proof (cases q)
    case (Ok claims)
    obtain r1 w2 rest1 where one:
      "remove_object api name (client_of KindStatefulSet ns) ops sched w1 = Some (r1, w2, rest1)"
      using assms(2) pvcs Ok by (auto simp: remove_statefulset_def split: option.splits)
    show ?thesis
    proof (cases r1)
      case ok: (Ok u)
      then show ?thesis
        using through [of w1 claims w2 rest1] assms(2) pvcs Ok one st
        by (simp add: remove_statefulset_def)
    qed (use failed [of w1] assms(2) pvcs Ok one st(1) in \<open>auto simp: remove_statefulset_def\<close>)
  qed (use early assms(2) pvcs st(1) in \<open>auto simp: remove_statefulset_def\<close>)
qed

text \<open>\<open>Remove\<close> fails without an effect, deletes one object, or is in the branch of a StatefulSet.\<close>

lemma Remove_run:
  assumes "Remove env api name ns kind options c sched w = (c', Some (r, w', rest))"
  obtains (early) "r \<noteq> Ok ()" "w' = w"
  | (single) T ops where "switch_kind kind = Some T" "T \<noteq> KindStatefulSet"
      "remove_object api name (client_of T ns) ops sched w = Some (r, w', rest)"
  | (stateful) ops c1 where "switch_kind kind = Some KindStatefulSet"
      "remove_statefulset env api name ns ops c1 sched w = (c', Some (r, w', rest))"
  using assms
  by (cases "Init env c")
    (auto simp: Remove_def Let_def split: option.splits if_splits)

lemma remove_claims_result:
  "remove_claims api ep ops pvcs sched w = Some (r, w', rest) \<Longrightarrow> r = Ok ()"
  by (induction api ep ops pvcs sched w rule: remove_claims.induct) (auto split: option.splits)


lemma found_names:
  "claims_found st ns name claims \<Longrightarrow> n \<in> r_name ` set claims \<Longrightarrow>
    removes st KindStatefulSet ns name (client_of KindPersistentVolumeClaim ns) n"
  by (auto simp: claims_found_def removes_def set_matching_claims claim_patterns_def)

section \<open>The guarantees\<close>

text \<open>
  C25. \<open>Remove\<close> touches nothing else: whatever it returns, an object that changed was the named
  one, or a claim whose name contains \<open>template-name-\<close> when a StatefulSet is removed, and it is
  gone; an error leaves the claims alone when a StatefulSet is removed.
\<close>

theorem Remove_touches_only:
  assumes "api_ok api admit store" and "undisturbed sched"
    and "Remove env api name ns kind options c sched w = (c', Some (r, w', rest))"
  shows "store w' ep n = store w ep n \<or>
    store w' ep n = None \<and>
    (\<exists>T. switch_kind kind = Some T \<and> removes (store w) T ns name ep n \<and>
      (r \<noteq> Ok () \<longrightarrow> ep = client_of T ns \<and> n = name))"
  using assms(3)
proof (cases rule: Remove_run)
  case (single T ops)
  then show ?thesis
    using remove_object_store(1) [OF assms(1,2) single(3)]
    by (auto simp: put_object_apply removes_def split: if_splits)
next
  case (stateful ops c1)
  note T = stateful(1)
  from assms(1) stateful(2) show ?thesis
  proof (cases rule: remove_statefulset_cases)
    case (failed w1)
    then show ?thesis
      using remove_object_store(1) [OF assms(1,2) failed(3)] T
      by (auto simp: put_object_apply removes_def split: if_splits)
  next
    case (through claims w1 w2 rest1)
    note first = remove_object_store [OF assms(1,2) through(3)]
    have "r = Ok ()" by (rule remove_claims_result [OF through(4)])
    then show ?thesis
      using remove_claims_store [OF assms(1) first(2) through(4), of ep n] first(1) T through(1)
        found_names [OF through(2), of n]
      by (auto simp: put_object_apply removes_def split: if_splits)
  qed simp
qed simp


section \<open>\<open>Rollout\<close> and \<open>Get\<close>\<close>

lemma Rollout_cases:
  assumes "api_ok api admit store" and "undisturbed sched"
    and "Rollout env convert api item options c sched w = (c', Some (r, w', rest))"
  obtains
    (nothing) "r \<noteq> Ok ()" "store w' = store w"
  | (done_it) T inst where "Init env c = (None, c')" "switch_kind (r_kind item) = Some T"
      "usable c' (client_of T (r_namespace item))" "Parse convert T item = Inr inst"
      "store w' = upserted admit (client_of T (r_namespace item)) inst (store w)"
      "r \<noteq> Ok () \<Longrightarrow>
        0 < op_wait (fold apply_operation options \<lparr>op_wait = 0, removeChildren = False\<rparr>)"
proof -
  obtain err c1 where init: "Init env c = (err, c1)" by fastforce
  let ?ops = "fold apply_operation options \<lparr>op_wait = 0, removeChildren = False\<rparr>"
  have unless: thesis if "r \<noteq> Ok () \<and> store w' = store w"
    by (rule nothing) (use that in simp_all)
  show ?thesis
  proof (cases "err = None \<and> (\<exists>T. switch_kind (r_kind item) = Some T \<and>
      usable c1 (client_of T (r_namespace item)))")
    case False
    then show ?thesis
      using assms(3) init
      by (intro unless) (auto simp: Rollout_def Let_def split: option.splits if_splits)
  next
    case True
    then obtain T where T: "switch_kind (r_kind item) = Some T"
        "usable c1 (client_of T (r_namespace item))" and err: "err = None" by blast
    then have run: "rollout convert api T item (client_of T (r_namespace item))
        (rollout_options T ?ops) sched w = Some (r, w', rest)" and c: "c1 = c'"
      using assms(3) init by (simp_all add: Rollout_def Let_def)
    have less: "0 < op_wait (rollout_options T ?ops) \<Longrightarrow> 0 < op_wait ?ops"
      by (auto simp: rollout_options_def Clone_def split: kind.splits)
    from rollout_store [OF assms(1,2) run] show ?thesis
    proof
      assume "\<exists>inst. Parse convert T item = Inr inst \<and>
        store w' = upserted admit (client_of T (r_namespace item)) inst (store w) \<and>
        (r \<noteq> Ok () \<longrightarrow> 0 < op_wait (rollout_options T ?ops))"
      then show ?thesis using done_it [of T] init err c T less by auto
    qed (rule unless)
  qed
qed


text \<open>
  C23. Read your writes: after a \<open>Rollout\<close> without an error, \<open>Get\<close> with the kind, the namespace and
  the name of the item returns what the server made of it, or an error other than \<open>not found\<close>
  from the server; it never panics.
\<close>

theorem Get_after_Rollout:
  assumes "api_ok api admit store" and "undisturbed sched"
    and "Rollout env convert api item options c sched w = (c', Some (Ok (), w', rest))"
    and "switch_kind (r_kind item) = Some T" and "Parse convert T item = Inr inst"
    and "Get_object env' api T (r_name inst) (r_namespace item) c' w' = (c'', res, w'')"
  shows "res = Ok (admit (store w (client_of T (r_namespace item)) (r_name inst)) inst) \<or>
    (\<exists>err. res = Err err \<and> err \<noteq> IsNotFound)"
  using assms(1-3)
proof (cases rule: Rollout_cases)
  case (done_it T' inst')
  let ?ep = "client_of T (r_namespace item)"
  have T: "T' = T" and inst: "inst' = inst" using done_it(2,4) assms(4,5) by simp_all
  obtain f w1 where f: "api_get api ?ep (r_name inst) w' = (f, w1)" by fastforce
  have "Init env' c' = (None, c')"
    using done_it(1) by (auto simp: Init_def Let_def split: if_splits)
  then have res: "res = to_outcome (intoGet T T f)"
    using assms(6) f done_it(3) T by (auto simp: Get_object_def Let_def)
  have stored: "store w' ?ep (r_name inst) = Some (admit (store w ?ep (r_name inst)) inst)"
    using done_it(5) T inst by (simp add: upserted_def put_object_apply)
  show ?thesis
    using res stored api_get_ok(2,3) [OF assms(1) f] by (cases f) (auto simp: intoGet_def)
qed simp

section \<open>\<open>List\<close>\<close>

lemma into_same: "into T T r items = Inr (r @ items)"
  by (induction items arbitrary: r) simp_all

lemma List_items_cases:
  assumes "List_items env api T ns options c w = (c', Ok items, w')"
  obtains all where "Init env c = (None, c')" "usable c' (client_of T ns)"
    "api_list api (client_of T ns) w = (Inr all, w')"
    "items = (case fold apply_list_option options None of
       None \<Rightarrow> all | Some matches \<Rightarrow> filter (\<lambda>item. matches (r_name item)) all)"
proof -
  obtain err c1 where init: "Init env c = (err, c1)" by fastforce
  obtain l w1 where l: "api_list api (client_of T ns) w = (l, w1)" by fastforce
  have "err = None" "usable c1 (client_of T ns)" "c1 = c'" "w1 = w'"
      "to_outcome (filter_items (fold apply_list_option options None)
         (case l of Inl err \<Rightarrow> Inl err | Inr items \<Rightarrow> into T T [] items)) = Ok items"
    using assms init l by (auto simp: List_items_def Let_def split: option.splits if_splits)
  then show ?thesis
    using init l that by (cases l) (auto simp: filter_items_def into_same split: option.splits)
qed

lemma List_items_store:
  assumes "api_ok api admit store" and "one_namespace (client_of T ns)"
    and "List_items env api T ns options c w = (c', Ok items, w')"
  shows "distinct (map r_name items)"
    and "obj \<in> set items \<longleftrightarrow> store w (client_of T ns) (r_name obj) = Some obj \<and>
      (case fold apply_list_option options None of None \<Rightarrow> True | Some matches \<Rightarrow> matches (r_name obj))"
    and "store w' = store w"
    and "store w (client_of T ns) n = Some obj' \<Longrightarrow> r_name obj' = n"
proof -
  obtain all where l: "api_list api (client_of T ns) w = (Inr all, w')"
      and items: "items = (case fold apply_list_option options None of
         None \<Rightarrow> all | Some matches \<Rightarrow> filter (\<lambda>item. matches (r_name item)) all)"
    by (rule List_items_cases [OF assms(3)])
  note lists = api_list_ok [OF assms(1) l]
  show "distinct (map r_name items)"
    using lists(2) assms(2) unfolding items by (auto simp: distinct_map_filter split: option.splits)
  show "obj \<in> set items \<longleftrightarrow> store w (client_of T ns) (r_name obj) = Some obj \<and>
      (case fold apply_list_option options None of None \<Rightarrow> True | Some matches \<Rightarrow> matches (r_name obj))"
    using lists(3) [of all "r_name obj" obj] assms(2) unfolding items by (auto split: option.splits)
  show "store w' = store w" by (rule lists(1))
  show "store w (client_of T ns) n = Some obj' \<Longrightarrow> r_name obj' = n"
    using lists(3) assms(2) by blast
qed

text \<open>
  \<open>List\<close> of one namespace returns exactly the stored objects whose names match the last pattern,
  each once, and changes nothing.
\<close>

theorem List_lists:
  assumes "api_ok api admit store" and "one_namespace (client_of T ns)"
    and "List_items env api T ns options c w = (c', Ok items, w')"
  shows "distinct (map r_name items) \<and> store w' = store w \<and>
    (obj \<in> set items \<longleftrightarrow> store w (client_of T ns) (r_name obj) = Some obj \<and>
      (case fold apply_list_option options None of None \<Rightarrow> True | Some matches \<Rightarrow> matches (r_name obj)))"
  using List_items_store [OF assms] by simp

section \<open>Waiting\<close>

text \<open>
  A call comes back: \<open>Rollout\<close> returns on every schedule in which its timer or its context
  fires.
\<close>

theorem Rollout_returns:
  assumes "TakeTimeout err \<in> set sched"
  shows "snd (Rollout env convert api item options c sched w) \<noteq> None"
proof -
  have "wait_then d (waitForRollout api T ep name sched v) sched v \<noteq> None" for d T ep name v
  proof -
    have "waitForRollout api T ep name sched v \<noteq> None"
      unfolding waitForRollout_def by (rule wait_loop_returns [OF assms])
    then show ?thesis by (auto simp: wait_then_def)
  qed
  then show ?thesis
    by (auto simp: Rollout_def rollout_def Let_def split: option.splits sum.splits prod.splits)
qed


section \<open>A server\<close>

text \<open>A server that keeps its objects in a map, stores them as they come and deletes at once.\<close>

type_synonym 'b objects = "(endpoint \<times> string, 'b resource) gomap"

definition stored :: "'b objects \<Rightarrow> endpoint \<Rightarrow> string \<Rightarrow> 'b resource option" where
  "stored w ep n = map_option (\<lambda>obj. obj\<lparr>r_name := n\<rparr>) (gm_get w (ep, n))"

definition map_api :: "('b objects, 'b) api" where
  "map_api =
     \<lparr>api_create = \<lambda>ep r w.
        if stored w ep (r_name r) = None then (None, gm_set (ep, r_name r) r w)
        else (Some AlreadyExists, w),
      api_update = \<lambda>ep r w.
        if stored w ep (r_name r) = None then (Some IsNotFound, w)
        else (None, gm_set (ep, r_name r) r w),
      api_delete = \<lambda>ep n p w.
        if stored w ep n = None then (Some IsNotFound, w) else (None, gm_delete (ep, n) w),
      api_get = \<lambda>ep n w.
        (case stored w ep n of None \<Rightarrow> Inl IsNotFound | Some obj \<Rightarrow> Inr obj, w),
      api_list = \<lambda>ep w.
        (Inr (map (\<lambda>n. the (stored w ep n))
           (remdups (map (\<lambda>e. snd (fst e)) (filter (\<lambda>e. fst (fst e) = ep) w)))), w)\<rparr>"

lemma stored_name: "stored w ep n = Some obj \<Longrightarrow> r_name obj = n"
  by (auto simp: stored_def)

lemma stored_set:
  "stored (gm_set (ep, r_name r) r w) = put_object ep (r_name r) (Some r) (stored w)"
  by (auto simp: stored_def put_object_def fun_eq_iff)

lemma stored_delete: "stored (gm_delete (ep, n) w) = put_object ep n None (stored w)"
  by (auto simp: stored_def put_object_def fun_eq_iff)

lemma stored_names:
  "set (map (\<lambda>e. snd (fst e)) (filter (\<lambda>e. fst (fst e) = ep) w)) = {n. stored w ep n \<noteq> None}"
  by (force simp: stored_def gm_get_eq_None)

lemma map_api_ok: "api_ok (map_api :: ('b objects, 'b) api) (\<lambda>_ r. r) stored"
proof -
  have "list_ok (map_api :: ('b objects, 'b) api) stored"
    unfolding list_ok_def
  proof (intro allI impI conjI)
    fix ep w and r :: "k8s_error + 'b resource list" and w'
    assume "api_list map_api ep w = (r, w')"
    then have w: "w' = w" and r: "r = Inr (map (\<lambda>n. the (stored w ep n))
        (remdups (map (\<lambda>e. snd (fst e)) (filter (\<lambda>e. fst (fst e) = ep) w))))"
      by (auto simp: map_api_def)
    let ?ns = "remdups (map (\<lambda>e. snd (fst e)) (filter (\<lambda>e. fst (fst e) = ep) w))"
    have ns: "set ?ns = {n. stored w ep n \<noteq> None}" "distinct ?ns"
      using stored_names [of ep w] by simp_all
    show "stored w' = stored w" using w by simp
    have "map r_name (map (\<lambda>n. the (stored w ep n)) ?ns) = ?ns"
      using ns(1) stored_name [of w ep] by (auto intro!: map_idI)
    moreover have "stored w ep n = Some obj \<longleftrightarrow>
        obj \<in> set (map (\<lambda>n. the (stored w ep n)) ?ns) \<and> r_name obj = n" for n obj
      using ns(1) stored_name [of w ep] by (auto simp: image_iff)
    ultimately show "case r of Inl err \<Rightarrow> True
        | Inr items \<Rightarrow> one_namespace ep \<longrightarrow> distinct (map r_name items) \<and>
            (\<forall>n obj. (stored w ep n = Some obj) = (obj \<in> set items \<and> r_name obj = n))"
      using r ns(2) by simp
  qed
  then show ?thesis
    by (auto simp: api_ok_def create_ok_def update_ok_def delete_ok_def get_ok_def map_api_def
        stored_set stored_delete split: option.splits if_splits)
qed


definition sample :: "kind \<Rightarrow> string \<Rightarrow> string list \<Rightarrow> unit resource" where
  "sample T name templates =
     \<lparr>r_type = Typed T, r_kind = kind_name T, r_name = name, r_namespace = ''d'',
      r_workload = \<lparr>wl_replicas = None, wl_generation = 0, wl_observedGeneration = 0,
        wl_readyReplicas = 1, wl_availableReplicas = 1, wl_updatedReplicas = 1\<rparr>,
      r_templates = templates, r_pod = \<lparr>ps_phase = [], ps_containers = []\<rparr>, r_body = ()\<rparr>"

definition good_env :: init_env where
  "good_env = \<lparr>in_cluster = None, kubeconfig = [], default_file = [], build_config = \<lambda>_. None,
     new_clientset = None, new_ae_clientset = None\<rparr>"

definition ready :: clients where
  "ready = \<lparr>once_done = True, has_clientset = True, has_ae_clientset = True\<rparr>"

definition no_convert :: "kind \<Rightarrow> unit resource \<Rightarrow> k8s_error + unit resource" where
  "no_convert T r = Inl (ConvertError [])"

lemma usable_ready [simp]: "usable ready ep"
  by (simp add: usable_def ready_def)

lemma Init_good [simp]: "Init good_env no_clients = (None, ready)" "Init env ready = (None, ready)"
  by (simp_all add: Init_def good_env_def no_clients_def ready_def)

text \<open>Two StatefulSets in a namespace, one of them with a name that starts like the other's.\<close>

definition web_objects :: "unit objects" where
  "web_objects =
     [((Namespaced AppsV1 ''StatefulSets'' ''d'', ''web''), sample KindStatefulSet ''web'' [''data'']),
      ((Namespaced AppsV1 ''StatefulSets'' ''d'', ''web-db''), sample KindStatefulSet ''web-db'' [''data'']),
      ((Namespaced CoreV1 ''PersistentVolumeClaims'' ''d'', ''data-web-0''),
        sample KindPersistentVolumeClaim ''data-web-0'' []),
      ((Namespaced CoreV1 ''PersistentVolumeClaims'' ''d'', ''data-web-db-0''),
        sample KindPersistentVolumeClaim ''data-web-db-0'' [])]"

lemma web_removed:
  "map_option (\<lambda>(r, w, sched). (r, w))
     (snd (Remove good_env map_api ''web'' ''d'' ''StatefulSet'' [] ready [] web_objects)) =
   Some (Ok (), [((Namespaced AppsV1 ''StatefulSets'' ''d'', ''web-db''),
     sample KindStatefulSet ''web-db'' [''data''])])"
  by code_simp

lemma web_run:
  obtains c' w' rest where
    "Remove good_env map_api ''web'' ''d'' ''StatefulSet'' [] ready [] web_objects =
       (c', Some (Ok (), w', rest))"
    "w' = [((Namespaced AppsV1 ''StatefulSets'' ''d'', ''web-db''),
       sample KindStatefulSet ''web-db'' [''data''])]"
  using web_removed by (auto simp: prod_eq_iff split: prod.splits)

lemma undisturbed_Nil [simp]: "undisturbed []"
  by (simp add: undisturbed_def)

text \<open>
  A StatefulSet loses the claims of another: removing \<open>web\<close>, whose template is \<open>data\<close>, also
  deletes the claim \<open>data-web-db-0\<close> of \<open>web-db\<close>, since the pattern may match anywhere.
\<close>

theorem Remove_deletes_foreign_claim:
  "map_option (\<lambda>(r, w, sched). (r, w))
     (snd (Remove good_env map_api ''web'' ''d'' ''StatefulSet'' [] ready [] web_objects)) =
   Some (Ok (), [((Namespaced AppsV1 ''StatefulSets'' ''d'', ''web-db''),
     sample KindStatefulSet ''web-db'' [''data''])]) \<and>
   stored web_objects (Namespaced CoreV1 ''PersistentVolumeClaims'' ''d'') ''data-web-db-0'' \<noteq> None"
  using web_removed by (simp add: web_objects_def stored_def)

text \<open>The StatefulSet \<open>web-db\<close> itself is not touched.\<close>

theorem Remove_touches_only_witness:
  "\<exists>c' w' rest.
     Remove good_env map_api ''web'' ''d'' ''StatefulSet'' [] ready [] web_objects =
       (c', Some (Ok (), w', rest)) \<and>
     stored w' (Namespaced AppsV1 ''StatefulSets'' ''d'') ''web-db'' =
       stored web_objects (Namespaced AppsV1 ''StatefulSets'' ''d'') ''web-db''"
proof -
  obtain c' w' rest where run: "Remove good_env map_api ''web'' ''d'' ''StatefulSet'' [] ready [] web_objects =
       (c', Some (Ok (), w', rest))" by (rule web_run)
  have "switch_kind ''StatefulSet'' = Some KindStatefulSet"
    using switch_kind_name [of KindStatefulSet] by simp
  then have "stored w' (Namespaced AppsV1 ''StatefulSets'' ''d'') ''web-db'' =
      stored web_objects (Namespaced AppsV1 ''StatefulSets'' ''d'') ''web-db''"
    using Remove_touches_only [OF map_api_ok undisturbed_Nil run,
        of "Namespaced AppsV1 ''StatefulSets'' ''d''" "''web-db''"]
    by (auto simp: removes_def)
  then show ?thesis using run by blast
qed


text \<open>A Deployment is created, its status is read once, and it is listed.\<close>

definition app :: "unit resource" where
  "app = sample KindDeployment ''app'' []"

abbreviation app_options :: "OperationOption list" where
  "app_options \<equiv> [WithWait (of_int64 1)]"

lemma app_rolled_out:
  "map_option (\<lambda>(r, w, sched). (r, w))
     (snd (Rollout good_env no_convert map_api app app_options ready [Poll, TakeDone] [])) =
   Some (Ok (), [((client_of KindDeployment ''d'', ''app''), app)])"
  by code_simp

lemma app_run:
  obtains c' w' rest where
    "Rollout good_env no_convert map_api app app_options ready [Poll, TakeDone] [] =
       (c', Some (Ok (), w', rest))" "w' = [((client_of KindDeployment ''d'', ''app''), app)]"
  using app_rolled_out by (auto simp: prod_eq_iff split: prod.splits)

lemma app_facts:
  "switch_kind (r_kind app) = Some KindDeployment" "Parse no_convert KindDeployment app = Inr app"
  "r_name app = ''app''" "r_namespace app = ''d''" "undisturbed [Poll, TakeDone]"
  using switch_kind_name [of KindDeployment]
  by (simp_all add: app_def sample_def Parse_def undisturbed_def)



theorem Get_after_Rollout_witness:
  "\<exists>c' w' rest.
     Rollout good_env no_convert map_api app app_options ready [Poll, TakeDone] [] =
       (c', Some (Ok (), w', rest)) \<and>
     fst (snd (Get_object good_env map_api KindDeployment ''app'' ''d'' c' w')) = Ok app"
proof -
  obtain c' w' rest where run:
    "Rollout good_env no_convert map_api app app_options ready [Poll, TakeDone] [] =
       (c', Some (Ok (), w', rest))"
      and w': "w' = [((client_of KindDeployment ''d'', ''app''), app)]" by (rule app_run)
  obtain c'' res w'' where get:
    "Get_object good_env map_api KindDeployment ''app'' ''d'' c' w' = (c'', res, w'')"
    by (metis prod_cases3)
  have "c' = ready" using run by (simp add: Rollout_def)
  then have "\<exists>obj. res = Ok obj"
    using get w' by (auto simp: Get_object_def intoGet_def map_api_def stored_def)
  then have "res = Ok app"
    using Get_after_Rollout [OF map_api_ok app_facts(5) run app_facts(1,2), of good_env c'' res w'']
      get app_facts(3,4) by auto
  then show ?thesis using run get by auto
qed

theorem Rollout_returns_witness:
  "snd (Rollout good_env no_convert map_api app app_options ready
     [Poll, TakeTimeout DeadlineExceeded] ([] :: unit objects)) \<noteq> None"
  by (rule Rollout_returns [of DeadlineExceeded]) simp


theorem List_lists_witness:
  "\<exists>items. fst (snd (List_items good_env map_api KindStatefulSet ''d'' [WithRegex (Some (\<lambda>n. n = ''web''))]
       ready web_objects)) = Ok items \<and>
     sample KindStatefulSet ''web'' [''data''] \<in> set items"
proof -
  obtain items where items: "fst (snd (List_items good_env map_api KindStatefulSet ''d''
      [WithRegex (Some (\<lambda>n. n = ''web''))] ready web_objects)) = Ok items"
    by (simp add: List_items_def map_api_def into_same filter_items_def Let_def)
  have "List_items good_env map_api KindStatefulSet ''d'' [WithRegex (Some (\<lambda>n. n = ''web''))]
      ready web_objects = (ready, Ok items, web_objects)"
    using items by (auto simp: List_items_def map_api_def Let_def)
  from List_lists [OF map_api_ok _ this, of "sample KindStatefulSet ''web'' [''data'']"]
  have "sample KindStatefulSet ''web'' [''data''] \<in> set items"
    by (simp add: stored_def web_objects_def sample_def)
  then show ?thesis using items by blast
qed

section \<open>A failed \<open>Init\<close>\<close>

text \<open>
  \<open>Init\<close> fails once: after it returned an error every later call returns nil, but the client of
  the custom resource definitions is nil, and so are all others unless only the last step
  failed; the operations then panic instead of returning the error again.
\<close>

theorem Init_failure_sticks:
  assumes "Init env no_clients = (Some err, c)"
    and "T = KindCustomResourceDefinition \<or> new_ae_clientset env = None"
  shows "Init env' c = (None, c) \<and>
    Get_object env' api T name ns c w = (c, Panic NilDereference, w) \<and>
    List_items env' api T ns options c w = (c, Panic NilDereference, w)"
proof -
  have init: "Init env' c = (None, c)"
    using assms(1) by (auto simp: Init_def no_clients_def Let_def split: if_splits)
  have "\<not> usable c (client_of T ns)"
    using assms by (auto simp: Init_def no_clients_def Let_def usable_def split: if_splits)
  then show ?thesis
    using init by (simp add: Get_object_def List_items_def Let_def)
qed

definition bad_env :: init_env where
  "bad_env = good_env\<lparr>in_cluster := Some (InitFailed ''no cluster''),
     build_config := \<lambda>_. Some (InitFailed ''no file'')\<rparr>"

theorem Init_failure_sticks_witness:
  "\<exists>c. Init bad_env no_clients = (Some (InitFailed ''no file''), c) \<and>
     Get_object good_env map_api KindCustomResourceDefinition ''x'' ''d'' c ([] :: unit objects) =
       (c, Panic NilDereference, [])"
proof -
  have "Init bad_env no_clients = (Some (InitFailed ''no file''), no_clients\<lparr>once_done := True\<rparr>)"
    by (simp add: Init_def bad_env_def good_env_def no_clients_def)
  moreover note Init_failure_sticks [OF this disjI1 [OF refl], of good_env map_api "''x''" "''d''" "[]" "[]"]
  ultimately show ?thesis by auto
qed

section \<open>\<open>EncodeYAML\<close>\<close>


end
