(* ===== verification/K8s_Watch.thy ===== *)
theory K8s_Watch
  imports K8s_Cluster
begin

text \<open>
  \<open>WatchPods\<close> of \<open>k8s/k8s.go\<close>: it lists the pods, then follows the events of a watch and calls
  the client's functions when a pod becomes available or unavailable. The theory shows that
  the calls are the edges of what it observes of each pod.
\<close>

section \<open>The watcher\<close>

definition isPodReady :: "pod_status \<Rightarrow> bool" where
  "isPodReady pod =
     (if ps_phase pod \<noteq> ''Running'' then False
      else if length (ps_containers pod) = 0 then False
      else list_all (\<lambda>r. r) (ps_containers pod))"

text \<open>The callbacks are nil or not; what they do is a call in the trace.\<close>

record watchOptions =
  wo_pattern :: "(string \<Rightarrow> bool) option"
  onAvailable :: bool
  onUnavailable :: bool

datatype WatchOption =
    WithWatchRegex "(string \<Rightarrow> bool) option"
  | WithOnAvailable bool
  | WithOnUnavailable bool

fun apply_watch_option :: "WatchOption \<Rightarrow> watchOptions \<Rightarrow> watchOptions" where
  "apply_watch_option (WithWatchRegex p) opts = opts\<lparr>wo_pattern := p\<rparr>"
| "apply_watch_option (WithOnAvailable f) opts = opts\<lparr>onAvailable := f\<rparr>"
| "apply_watch_option (WithOnUnavailable f) opts = opts\<lparr>onUnavailable := f\<rparr>"

datatype 'b callback = Available "'b resource" | Unavailable "'b resource"

text \<open>An event of the watch; its object is a pod or something else (\<open>None\<close>).\<close>

datatype watch_type = Added | Modified | Deleted | Bookmark | WatchError

datatype 'b watch_input = CtxDone | ResultChan watch_type "'b resource option" | ChanClosed

text \<open>\<open>podReadyMap\<close> and the calls so far.\<close>

type_synonym 'b watcher = "(string, bool) gomap \<times> 'b callback list"

definition lookup_ready :: "(string, bool) gomap \<Rightarrow> string \<Rightarrow> bool" where
  "lookup_ready m n = (case gm_get m n of None \<Rightarrow> False | Some b \<Rightarrow> b)"

fun watch_first :: "watchOptions \<Rightarrow> 'b resource list \<Rightarrow> 'b watcher \<Rightarrow> 'b watcher" where
  "watch_first opts [] s = s"
| "watch_first opts (pod # pods) (m, calls) =
     (let ready = isPodReady (r_pod pod)
      in watch_first opts pods
           (gm_set (r_name pod) ready m,
            if ready \<and> onAvailable opts then calls @ [Available pod] else calls))"

definition watch_pod :: "watchOptions \<Rightarrow> watch_type \<Rightarrow> 'b resource \<Rightarrow> 'b watcher \<Rightarrow> 'b watcher" where
  "watch_pod opts T pod s =
     (let (m, calls) = s;
          current = lookup_ready m (r_name pod)
      in case T of
           Modified \<Rightarrow>
             let ready = isPodReady (r_pod pod);
                 calls =
                   (if current \<noteq> ready
                    then if ready then if onAvailable opts then calls @ [Available pod] else calls
                         else if onUnavailable opts then calls @ [Unavailable pod] else calls
                    else calls)
             in (gm_set (r_name pod) ready m, calls)
         | Deleted \<Rightarrow>
             (gm_set (r_name pod) False m,
              if current then if onUnavailable opts then calls @ [Unavailable pod] else calls
              else calls)
         | _ \<Rightarrow> s)"

text \<open>The loop: the state, and whether the call has returned.\<close>

fun watch_loop :: "watchOptions \<Rightarrow> 'b watch_input list \<Rightarrow> 'b watcher \<Rightarrow> 'b watcher \<times> bool" where
  "watch_loop opts [] s = (s, False)"
| "watch_loop opts (CtxDone # inputs) s = (s, True)"
| "watch_loop opts (ChanClosed # inputs) s = (s, True)"
| "watch_loop opts (ResultChan T None # inputs) s = watch_loop opts inputs s"
| "watch_loop opts (ResultChan T (Some pod) # inputs) s =
     (if (case wo_pattern opts of None \<Rightarrow> False | Some matches \<Rightarrow> \<not> matches (r_name pod))
      then watch_loop opts inputs s
      else watch_loop opts inputs (watch_pod opts T pod s))"

text \<open>
  The result, \<open>None\<close> while the call is still waiting, and the calls; \<open>watch\<close> is what the
  server answers to \<open>Watch\<close>.
\<close>

definition WatchPods ::
  "init_env \<Rightarrow> ('w, 'b) api \<Rightarrow> (endpoint \<Rightarrow> 'w \<Rightarrow> k8s_error option \<times> 'w) \<Rightarrow> string \<Rightarrow>
    WatchOption list \<Rightarrow> clients \<Rightarrow> 'b watch_input list \<Rightarrow> 'w \<Rightarrow>
    clients \<times> (k8s_error, unit) outcome option \<times> 'b callback list" where
  "WatchPods env api watch ns options c inputs w =
     (let opts = fold apply_watch_option options
            \<lparr>wo_pattern = None, onAvailable = False, onUnavailable = False\<rparr>;
          (err, c) = Init env c
      in case err of
           Some err \<Rightarrow> (c, Some (Err err), [])
         | None \<Rightarrow>
             (case List_items env api KindPod ns [WithRegex (wo_pattern opts)] c w of
                (c, Err err, w) \<Rightarrow> (c, Some (Err err), [])
              | (c, Panic p, w) \<Rightarrow> (c, Some (Panic p), [])
              | (c, Ok pods, w) \<Rightarrow>
                  (c,
                   case watch (client_of KindPod ns) w of
                     (Some err, w) \<Rightarrow> (Some (Err err), [])
                   | (None, w) \<Rightarrow>
                       let (s, returned) = watch_loop opts inputs (watch_first opts pods ([], []))
                       in (if returned then Some (Ok ()) else None, snd s))))"

section \<open>Edges\<close>

text \<open>
  The abstract view: a pod is observed ready or not, and a client wants to hear of the
  changes, beginning with not ready.
\<close>

fun edges :: "bool \<Rightarrow> bool list \<Rightarrow> bool list" where
  "edges b [] = []"
| "edges b (x # xs) = (if x = b then edges b xs else x # edges x xs)"

fun observed :: "string \<Rightarrow> 'b watch_input list \<Rightarrow> bool list" where
  "observed n [] = []"
| "observed n (CtxDone # inputs) = []"
| "observed n (ChanClosed # inputs) = []"
| "observed n (ResultChan T None # inputs) = observed n inputs"
| "observed n (ResultChan T (Some pod) # inputs) =
     (if r_name pod = n \<and> T = Modified then isPodReady (r_pod pod) # observed n inputs
      else if r_name pod = n \<and> T = Deleted then False # observed n inputs
      else observed n inputs)"

text \<open>The calls about a name: \<open>True\<close> for available.\<close>

fun calls_about :: "string \<Rightarrow> 'b callback list \<Rightarrow> bool list" where
  "calls_about n [] = []"
| "calls_about n (Available pod # cs) =
     (if r_name pod = n then True # calls_about n cs else calls_about n cs)"
| "calls_about n (Unavailable pod # cs) =
     (if r_name pod = n then False # calls_about n cs else calls_about n cs)"

lemma calls_about_append [simp]: "calls_about n (cs @ ds) = calls_about n cs @ calls_about n ds"
  by (induction n cs rule: calls_about.induct) auto

lemma lookup_ready_set [simp]:
  "lookup_ready (gm_set k b m) n = (if n = k then b else lookup_ready m n)"
  by (simp add: lookup_ready_def)

lemma lookup_ready_Nil [simp]: "lookup_ready [] n = False"
  by (simp add: lookup_ready_def)

definition watched :: "watchOptions \<Rightarrow> string \<Rightarrow> bool" where
  "watched opts n \<longleftrightarrow> (case wo_pattern opts of None \<Rightarrow> True | Some matches \<Rightarrow> matches n)"

lemma watch_first_other:
  "n \<notin> r_name ` set pods \<Longrightarrow>
    lookup_ready (fst (watch_first opts pods (m, calls))) n = lookup_ready m n \<and>
    calls_about n (snd (watch_first opts pods (m, calls))) = calls_about n calls"
  by (induction opts pods "(m, calls)" arbitrary: m calls rule: watch_first.induct)
    (auto simp: Let_def)

lemma watch_first_edges:
  assumes "distinct (map r_name pods)" and "pod \<in> set pods" and "onAvailable opts"
  shows "lookup_ready (fst (watch_first opts pods (m, calls))) (r_name pod) = isPodReady (r_pod pod) \<and>
    calls_about (r_name pod) (snd (watch_first opts pods (m, calls))) =
      calls_about (r_name pod) calls @ (if isPodReady (r_pod pod) then [True] else [])"
  using assms
proof (induction opts pods "(m, calls)" arbitrary: m calls rule: watch_first.induct)
  case (2 opts p pods m calls)
  show ?case
  proof (cases "p = pod")
    case True
    then have "r_name pod \<notin> r_name ` set pods" using 2(2) by auto
    then show ?thesis using True 2(4) by (simp add: Let_def watch_first_other)
  next
    case False
    then have "r_name p \<noteq> r_name pod" using 2(2,3) by auto
    then show ?thesis using False 2 by (auto simp: Let_def)
  qed
qed simp

lemma watch_loop_edges:
  assumes "onAvailable opts" and "onUnavailable opts" and "watched opts n"
  shows "calls_about n (snd (fst (watch_loop opts inputs (m, calls)))) =
    calls_about n calls @ edges (lookup_ready m n) (observed n inputs)"
proof (induction inputs arbitrary: m calls)
  case (Cons i inputs)
  show ?case
  proof (cases i)
    case i: (ResultChan T obj)
    show ?thesis
    proof (cases obj)
      case obj: (Some pod)
      show ?thesis
      proof (cases "r_name pod = n")
        case True
        then show ?thesis
          using Cons i obj assms
          by (cases T) (auto simp: watch_pod_def Let_def watched_def split: option.splits)
      next
        case False
        then show ?thesis
          using Cons i obj
          by (cases T) (auto simp: watch_pod_def Let_def split: option.splits)
      qed
    qed (use Cons i in simp)
  qed simp_all
qed simp

lemma watch_first_unlisted:
  "\<forall>pod \<in> set pods. P (r_name pod) \<Longrightarrow> \<not> P n \<Longrightarrow>
    lookup_ready (fst (watch_first opts pods ([], []))) n = False \<and>
    calls_about n (snd (watch_first opts pods ([], []))) = []"
  using watch_first_other [of n pods opts "[]" "[]"] by auto

lemma watch_loop_unwatched:
  assumes "\<not> watched opts n"
  shows "calls_about n (snd (fst (watch_loop opts inputs (m, calls)))) = calls_about n calls"
proof (induction inputs arbitrary: m calls)
  case (Cons i inputs)
  show ?case
  proof (cases i)
    case i: (ResultChan T obj)
    show ?thesis
    proof (cases obj)
      case obj: (Some pod)
      show ?thesis
      proof (cases "r_name pod = n")
        case True
        then show ?thesis
          using Cons i obj assms by (auto simp: watched_def split: option.splits)
      next
        case False
        then show ?thesis
          using Cons i obj
          by (cases T) (auto simp: watch_pod_def Let_def split: option.splits)
      qed
    qed (use Cons i in simp)
  qed simp_all
qed simp

text \<open>What \<open>WatchPods\<close> has called when it did not fail.\<close>

lemma WatchPods_cases:
  assumes "WatchPods env api watch ns options c inputs w = (c', r, calls)"
    and "r = None \<or> r = Some (Ok ())"
    and "opts = fold apply_watch_option options
      \<lparr>wo_pattern = None, onAvailable = False, onUnavailable = False\<rparr>"
  obtains c1 pods w1 where
    "List_items env api KindPod ns [WithRegex (wo_pattern opts)] c1 w = (c', Ok pods, w1)"
    "calls = snd (fst (watch_loop opts inputs (watch_first opts pods ([], []))))"
proof -
  obtain err c1 where init: "Init env c = (err, c1)" by fastforce
  obtain c2 l w1 where l: "List_items env api KindPod ns [WithRegex (wo_pattern opts)] c1 w = (c2, l, w1)"
    by (metis prod_cases3)
  have err: "err = None" using assms init by (cases err) (auto simp: WatchPods_def Let_def)
  then obtain pods where pods: "l = Ok pods"
    using assms init l by (cases l) (auto simp: WatchPods_def Let_def)
  have "c2 = c'" and "calls = snd (fst (watch_loop opts inputs (watch_first opts pods ([], []))))"
    using assms init l err pods
    by (auto simp: WatchPods_def Let_def split: prod.splits option.splits)
  then show ?thesis using that l pods by blast
qed

text \<open>
  C11. The calls are the edges: as long as \<open>WatchPods\<close> on one namespace has not failed, the calls about
  a pod with a matching name, when both callbacks are set, are exactly the changes of what
  was observed of it, its state when it was listed and then the events, beginning with not
  ready, so they alternate; there are none about other names.
\<close>

theorem WatchPods_edges:
  assumes "api_ok api admit store" and "one_namespace (client_of KindPod ns)"
    and "WatchPods env api watch ns options c inputs w = (c', r, calls)"
    and "r = None \<or> r = Some (Ok ())"
    and "opts = fold apply_watch_option options
      \<lparr>wo_pattern = None, onAvailable = False, onUnavailable = False\<rparr>"
    and "onAvailable opts" and "onUnavailable opts"
  shows "calls_about n calls =
    (if watched opts n
     then edges False
       ((case store w (client_of KindPod ns) n of None \<Rightarrow> [] | Some pod \<Rightarrow> [isPodReady (r_pod pod)]) @
        observed n inputs)
     else [])"
proof -
  obtain c1 pods w1 where
    l: "List_items env api KindPod ns [WithRegex (wo_pattern opts)] c1 w = (c', Ok pods, w1)"
      and calls: "calls = snd (fst (watch_loop opts inputs (watch_first opts pods ([], []))))"
    by (rule WatchPods_cases [OF assms(3-5)])
  note listed = List_items_store [OF assms(1,2) l]
  have pat: "pod \<in> set pods \<longleftrightarrow> store w (client_of KindPod ns) (r_name pod) = Some pod \<and>
      watched opts (r_name pod)" for pod
    using listed(2) [of pod] by (simp add: watched_def)
  obtain m0 calls0 where first: "watch_first opts pods ([], []) = (m0, calls0)" by fastforce
  show ?thesis
  proof (cases "watched opts n")
    case False
    then have "calls_about n calls0 = []"
      using watch_first_unlisted [of pods "watched opts" n opts] pat first by simp
    then show ?thesis
      using watch_loop_unwatched [OF False, of inputs m0 calls0] False by (simp add: calls first)
  next
    case True
    have loop: "calls_about n calls = calls_about n calls0 @ edges (lookup_ready m0 n) (observed n inputs)"
      using watch_loop_edges [OF assms(6,7) True] by (simp add: calls first)
    show ?thesis
    proof (cases "store w (client_of KindPod ns) n")
      case None
      then have "n \<notin> r_name ` set pods" using pat by auto
      then show ?thesis
        using watch_first_other [of n pods opts "[]" "[]"] loop True None by (simp add: first)
    next
      case (Some pod)
      then have n: "r_name pod = n" by (rule listed(4))
      then have "pod \<in> set pods" using pat Some True by simp
      then show ?thesis
        using watch_first_edges [OF listed(1) _ assms(6), of pod "[]" "[]"] loop True Some n
        by (simp add: first)
    qed
  qed
qed

text \<open>A pod that becomes ready, is modified again, and is deleted.\<close>

definition a_pod :: "string \<Rightarrow> bool list \<Rightarrow> unit resource" where
  "a_pod name containers =
     (sample KindPod name [])\<lparr>r_pod := \<lparr>ps_phase = ''Running'', ps_containers = containers\<rparr>\<rparr>"

theorem WatchPods_edges_witness:
  "\<exists>c' calls.
     WatchPods good_env map_api (\<lambda>ep w. (None, w)) ''d'' [WithOnAvailable True, WithOnUnavailable True]
       ready [ResultChan Modified (Some (a_pod ''p'' [True])), ResultChan Modified (Some (a_pod ''p'' [True])),
              ResultChan Deleted (Some (a_pod ''p'' [True])), CtxDone] [] =
       (c', Some (Ok ()), calls) \<and>
     calls_about ''p'' calls = [True, False]"
proof -
  let ?inputs = "[ResultChan Modified (Some (a_pod ''p'' [True])),
    ResultChan Modified (Some (a_pod ''p'' [True])),
    ResultChan Deleted (Some (a_pod ''p'' [True])), CtxDone]"
  obtain c' r calls where w: "WatchPods good_env map_api (\<lambda>ep w. (None, w)) ''d''
      [WithOnAvailable True, WithOnUnavailable True] ready ?inputs [] = (c', r, calls)"
    by (metis prod_cases3)
  then have r: "r = Some (Ok ())"
    by (auto simp: WatchPods_def List_items_def map_api_def filter_items_def Let_def split: prod.splits)
  have "calls_about ''p'' calls = [True, False]"
    using WatchPods_edges [OF map_api_ok _ w _ refl, of "''p''"] r
    by (simp add: stored_def watched_def a_pod_def sample_def isPodReady_def)
  then show ?thesis using w r by blast
qed

end
