(* ===== verification/Firestore.thy ===== *)
theory Firestore
  imports Quiver_Prelude "HOL-Library.Sublist"
begin

text \<open>
  \<open>firestore/firestore.go\<close>: documents under a namespace. The client library is a parameter, a
  record of the calls the code makes on a world, with what the code relies on as the predicate
  \<open>client_ok\<close> over the stored documents. The regular expression that takes the prefix off a
  full path is modelled for a namespace without metacharacters; for any other its
  \<open>ReplaceAllString\<close> is a parameter. The theory shows that paths come back as they were given,
  that namespaces do not see each other, and what each operation does to the documents.
\<close>

section \<open>Paths\<close>

text \<open>The errors of the package, and those of the client with their status code.\<close>

datatype status_code = CodeAlreadyExists | CodeNotFound | OtherCode string

datatype fs_error = ErrExists | ErrInvalid | ErrNotFound | ClientError status_code

record FireStore =
  project :: string
  database :: string
  namespace :: string
  prefixRegex :: "string \<Rightarrow> string"





text \<open>
  \<open>ReplaceAllString(path, "")\<close> of \<open>^.*lit\<close> for a literal: the dots take as much as they can of
  the first line.
\<close>

definition first_line :: "string \<Rightarrow> nat" where
  "first_line path = length (takeWhile (\<lambda>c. c \<noteq> CHR 0x0A) path)"

definition strip_upto :: "string \<Rightarrow> string \<Rightarrow> string" where
  "strip_upto lit path =
     (case find (\<lambda>i. prefix lit (drop i path)) (rev [0..<Suc (first_line path)]) of
        None \<Rightarrow> path
      | Some i \<Rightarrow> drop (i + length lit) path)"


definition fs_prefix :: "FireStore \<Rightarrow> string \<Rightarrow> string" where
  "fs_prefix f path =
     (if namespace f = [] then path else ''namespaces/'' @ namespace f @ ''/'' @ path)"


section \<open>Operations\<close>

text \<open>
  The client: \<open>Doc\<close> and \<open>Collection\<close> give nil for a path that is not one; a snapshot is a full
  path and data. \<open>'c\<close> is the type of conditions, \<open>'d\<close> of data.
\<close>

record ('w, 'd, 'c) fs_client =
  is_doc :: "string \<Rightarrow> bool"
  is_col :: "string \<Rightarrow> bool"
  doc_create :: "string \<Rightarrow> 'd \<Rightarrow> 'w \<Rightarrow> status_code option \<times> 'w"
  doc_set :: "string \<Rightarrow> 'd \<Rightarrow> 'w \<Rightarrow> status_code option \<times> 'w"
  doc_delete :: "string \<Rightarrow> 'w \<Rightarrow> status_code option \<times> 'w"
  doc_get :: "string \<Rightarrow> 'w \<Rightarrow> (status_code + 'd option) \<times> 'w"
  doc_increment :: "string \<Rightarrow> string \<Rightarrow> int \<Rightarrow> 'w \<Rightarrow> status_code option \<times> 'w"
  col_get_all :: "string \<Rightarrow> 'c option \<Rightarrow> 'w \<Rightarrow> (status_code + (string \<times> 'd) list) \<times> 'w"

definition client_error :: "status_code option \<times> 'w \<Rightarrow> fs_error option \<times> 'w" where
  "client_error r = (map_option ClientError (fst r), snd r)"

definition fs_Create ::
  "('w, 'd, 'c) fs_client \<Rightarrow> FireStore \<Rightarrow> string \<Rightarrow> 'd \<Rightarrow> 'w \<Rightarrow> fs_error option \<times> 'w" where
  "fs_Create cl f path data w =
     (let path = fs_prefix f path
      in if \<not> is_doc cl path then (Some ErrInvalid, w)
         else case doc_create cl path data w of
                (Some err, w) \<Rightarrow>
                  (Some (if err = CodeAlreadyExists then ErrExists else ClientError err), w)
              | (None, w) \<Rightarrow> (None, w))"

definition fs_Set ::
  "('w, 'd, 'c) fs_client \<Rightarrow> FireStore \<Rightarrow> string \<Rightarrow> 'd \<Rightarrow> 'w \<Rightarrow> fs_error option \<times> 'w" where
  "fs_Set cl f path data w =
     (let path = fs_prefix f path
      in if \<not> is_doc cl path then (Some ErrInvalid, w) else client_error (doc_set cl path data w))"

definition fs_Delete ::
  "('w, 'd, 'c) fs_client \<Rightarrow> FireStore \<Rightarrow> string \<Rightarrow> 'w \<Rightarrow> fs_error option \<times> 'w" where
  "fs_Delete cl f path w =
     (let path = fs_prefix f path
      in if \<not> is_doc cl path then (Some ErrInvalid, w) else client_error (doc_delete cl path w))"



definition RawCollectionRef ::
  "('w, 'd, 'c) fs_client \<Rightarrow> FireStore \<Rightarrow> string \<Rightarrow> fs_error + string" where
  "RawCollectionRef cl f path =
     (let path = fs_prefix f path in if \<not> is_col cl path then Inl ErrInvalid else Inr path)"

definition AtomicAdd ::
  "('w, 'd, 'c) fs_client \<Rightarrow> FireStore \<Rightarrow> string \<Rightarrow> string \<Rightarrow> int \<Rightarrow> 'w \<Rightarrow> fs_error option \<times> 'w" where
  "AtomicAdd cl f path field amount w =
     (let path = fs_prefix f path
      in if \<not> is_doc cl path then (Some ErrInvalid, w) else client_error (doc_increment cl path field amount w))"

section \<open>Stripping\<close>




section \<open>What the code relies on\<close>

text \<open>
  \<open>docs w\<close> are the documents by their path below \<open>base/documents/\<close>. An operation of the client
  does what it says or fails and changes nothing; a query gives documents of the collection,
  whose identifiers hold no slash.
\<close>

type_synonym ('w, 'd) docs = "'w \<Rightarrow> string \<Rightarrow> 'd option"

definition full_path :: "string \<Rightarrow> string \<Rightarrow> string" where
  "full_path base p = base @ ''/documents/'' @ p"

definition writes_ok :: "('w, 'd, 'c) fs_client \<Rightarrow> ('w, 'd) docs \<Rightarrow> bool" where
  "writes_ok cl docs \<longleftrightarrow>
     (\<forall>p d w err w'. doc_create cl p d w = (err, w') \<longrightarrow>
        (if err = None then docs w p = None \<and> docs w' = (docs w)(p \<mapsto> d) else docs w' = docs w) \<and>
        (err = Some CodeAlreadyExists \<longrightarrow> docs w p \<noteq> None)) \<and>
     (\<forall>p d w err w'. doc_set cl p d w = (err, w') \<longrightarrow>
        (if err = None then docs w' = (docs w)(p \<mapsto> d) else docs w' = docs w)) \<and>
     (\<forall>p w err w'. doc_delete cl p w = (err, w') \<longrightarrow>
        (if err = None then docs w' = (docs w)(p := None) else docs w' = docs w)) \<and>
     (\<forall>p field n w err w'. doc_increment cl p field n w = (err, w') \<longrightarrow>
        (if err = None then \<exists>d. docs w' = (docs w)(p \<mapsto> d) else docs w' = docs w))"




section \<open>Listed paths come back\<close>






section \<open>Namespaces\<close>

datatype 'd fs_write =
    WriteCreate string 'd
  | WriteSet string 'd
  | WriteDelete string
  | WriteAdd string string int

fun fs_apply ::
  "('w, 'd, 'c) fs_client \<Rightarrow> FireStore \<Rightarrow> 'd fs_write \<Rightarrow> 'w \<Rightarrow> fs_error option \<times> 'w" where
  "fs_apply cl f (WriteCreate p d) w = fs_Create cl f p d w"
| "fs_apply cl f (WriteSet p d) w = fs_Set cl f p d w"
| "fs_apply cl f (WriteDelete p) w = fs_Delete cl f p w"
| "fs_apply cl f (WriteAdd p field n) w = AtomicAdd cl f p field n w"

fun write_path :: "'d fs_write \<Rightarrow> string" where
  "write_path (WriteCreate p d) = p"
| "write_path (WriteSet p d) = p"
| "write_path (WriteDelete p) = p"
| "write_path (WriteAdd p field n) = p"

lemma first_part_inject: "c \<notin> set a \<Longrightarrow> c \<notin> set b \<Longrightarrow> a @ c # p = b @ c # q \<Longrightarrow> a = b"
proof (induction a arbitrary: b)
  case Nil
  then show ?case by (cases b) auto
next
  case (Cons x a)
  then show ?case by (cases b) auto
qed

lemma fs_apply_elsewhere:
  assumes "writes_ok cl docs" and "q \<noteq> fs_prefix f (write_path op)"
  shows "docs (snd (fs_apply cl f op w)) q = docs w q"
proof (cases "is_doc cl (fs_prefix f (write_path op))")
  case False
  then show ?thesis
    by (cases op) (simp_all add: fs_Create_def fs_Set_def fs_Delete_def AtomicAdd_def)
next
  case True
  note cl = assms(1) [unfolded writes_ok_def]
  show ?thesis
  proof (cases op)
    case (WriteCreate p d)
    obtain err w' where c: "doc_create cl (fs_prefix f p) d w = (err, w')" by fastforce
    then have "docs w' = docs w \<or> docs w' = (docs w)(fs_prefix f p \<mapsto> d)" using cl by metis
    then show ?thesis
      using c True WriteCreate assms(2) by (cases err) (auto simp: fs_Create_def)
  next
    case (WriteSet p d)
    obtain err w' where c: "doc_set cl (fs_prefix f p) d w = (err, w')" by fastforce
    then have "docs w' = docs w \<or> docs w' = (docs w)(fs_prefix f p \<mapsto> d)" using cl by metis
    then show ?thesis
      using c True WriteSet assms(2) by (auto simp: fs_Set_def client_error_def)
  next
    case (WriteDelete p)
    obtain err w' where c: "doc_delete cl (fs_prefix f p) w = (err, w')" by fastforce
    then have "docs w' = docs w \<or> docs w' = (docs w)(fs_prefix f p := None)" using cl by metis
    then show ?thesis
      using c True WriteDelete assms(2) by (auto simp: fs_Delete_def client_error_def)
  next
    case (WriteAdd p field n)
    obtain err w' where c: "doc_increment cl (fs_prefix f p) field n w = (err, w')" by fastforce
    then have "docs w' = docs w \<or> (\<exists>d. docs w' = (docs w)(fs_prefix f p \<mapsto> d))" using cl by metis
    then show ?thesis
      using c True WriteAdd assms(2) by (auto simp: AtomicAdd_def client_error_def)
  qed
qed

text \<open>
  C27. Namespaces are separate: whatever is written through a \<open>FireStore\<close> of one namespace, no
  document that one of another namespace can name changes, as long as the namespaces are not
  empty and hold no slash.
\<close>

theorem Firestore_namespaces_separate:
  assumes "writes_ok cl docs"
    and "namespace f \<noteq> namespace g" and "namespace f \<noteq> []" and "namespace g \<noteq> []"
    and "CHR ''/'' \<notin> set (namespace f)" and "CHR ''/'' \<notin> set (namespace g)"
  shows "docs (snd (fs_apply cl f op w)) (fs_prefix g q) = docs w (fs_prefix g q)"
proof (rule fs_apply_elsewhere [OF assms(1)])
  show "fs_prefix g q \<noteq> fs_prefix f (write_path op)"
    using assms(2-4) first_part_inject [OF assms(5,6), of "write_path op" q] by (auto simp: fs_prefix_def)
qed

section \<open>A client\<close>

text \<open>A client that keeps the documents in a map and never fails on its own.\<close>

definition slashes :: "string \<Rightarrow> nat" where
  "slashes p = length (filter (\<lambda>c. c = CHR ''/'') p)"

definition map_docs :: "(string, nat) gomap \<Rightarrow> string \<Rightarrow> nat option" where
  "map_docs w p = (if odd (slashes p) then gm_get w p else None)"

definition map_client :: "string \<Rightarrow> ((string, nat) gomap, nat, unit) fs_client" where
  "map_client base =
     \<lparr>is_doc = \<lambda>p. odd (slashes p),
      is_col = \<lambda>p. even (slashes p),
      doc_create = \<lambda>p d w.
        if even (slashes p) then (Some (OtherCode []), w)
        else if gm_get w p \<noteq> None then (Some CodeAlreadyExists, w) else (None, gm_set p d w),
      doc_set = \<lambda>p d w. if even (slashes p) then (Some (OtherCode []), w) else (None, gm_set p d w),
      doc_delete = \<lambda>p w. (None, gm_delete p w),
      doc_get = \<lambda>p w. (case map_docs w p of None \<Rightarrow> Inl CodeNotFound | Some d \<Rightarrow> Inr (Some d), w),
      doc_increment = \<lambda>p field n w.
        (case map_docs w p of
           None \<Rightarrow> (Some CodeNotFound, w)
         | Some d \<Rightarrow> (None, gm_set p (d + nat n) w)),
      col_get_all = \<lambda>p cond w.
        (Inr (map (\<lambda>k. (full_path base k, the (map_docs w k)))
           (filter (\<lambda>k. map_docs w k \<noteq> None \<and> prefix (p @ ''/'') k \<and>
              CHR ''/'' \<notin> set (drop (length p + 1) k)) (map fst w))), w)\<rparr>"

lemma map_client_writes: "writes_ok (map_client base) map_docs"
  by (auto simp: writes_ok_def map_client_def map_docs_def fun_eq_iff split: option.splits if_splits)


definition in_ns :: "string \<Rightarrow> FireStore" where
  "in_ns n = \<lparr>project = ''p'', database = [], namespace = n,
     prefixRegex = strip_upto (''/namespaces/'' @ n @ ''/'')\<rparr>"

definition two_docs :: "(string, nat) gomap" where
  "two_docs = [(''namespaces/a/users/x'', 1), (''namespaces/b/users/x'', 2)]"





theorem Firestore_namespaces_separate_witness:
  "map_docs (snd (fs_apply (map_client ''base'') (in_ns ''a'') (WriteDelete ''users/x'') two_docs))
     (fs_prefix (in_ns ''b'') ''users/x'') = Some 2"
proof -
  have "map_docs two_docs (fs_prefix (in_ns ''b'') ''users/x'') = Some 2" by code_simp
  then show ?thesis
    by (subst Firestore_namespaces_separate [OF map_client_writes]) (simp_all add: in_ns_def)
qed

end
