(* ===== verification/Geo_Split.thy ===== *)
theory Geo_Split
  imports Complex_Main Quiver_Prelude
begin

text \<open>
  \<open>geo/split.go\<close>: the splitting of polygons along grids. The geometry library and the arithmetic
  of \<open>float64\<close> are parameters, records of their operations; a loop over coordinates that never
  reaches its bound is the result \<open>None\<close>. The theory shows that the recursion ends with its
  depth, when the loops do, that every polygon of the result is cut out of one of the input and
  is small or as deep as the depth allows.
\<close>

section \<open>Parameters\<close>

record 'f float_ops =
  fl_add :: "'f \<Rightarrow> 'f \<Rightarrow> 'f"
  fl_sub :: "'f \<Rightarrow> 'f \<Rightarrow> 'f"
  fl_mul :: "'f \<Rightarrow> 'f \<Rightarrow> 'f"
  fl_div :: "'f \<Rightarrow> 'f \<Rightarrow> 'f"
  fl_min :: "'f \<Rightarrow> 'f \<Rightarrow> 'f"
  fl_max :: "'f \<Rightarrow> 'f \<Rightarrow> 'f"
  fl_less :: "'f \<Rightarrow> 'f \<Rightarrow> bool"
  fl_eq :: "'f \<Rightarrow> 'f \<Rightarrow> bool"
  fl_round :: "'f \<Rightarrow> 'f"
  fl_of_int :: "int \<Rightarrow> 'f"

datatype 'p shape = Polygon 'p | MultiPolygon "'p list" | OtherShape string

text \<open>
  What the code asks of a polygon: the lengths of its coordinate sequences, whether its
  envelope is empty, the corners of the envelope (\<open>None\<close> when \<open>XY\<close> says that there are none),
  and the intersection with another, which may fail.
\<close>

record ('p, 'f) geom_ops =
  coord_lengths :: "'p \<Rightarrow> nat list"
  env_empty :: "'p \<Rightarrow> bool"
  env_min :: "'p \<Rightarrow> ('f \<times> 'f) option"
  env_max :: "'p \<Rightarrow> ('f \<times> 'f) option"
  new_polygon :: "'f list \<Rightarrow> 'p"
  intersection :: "'p \<Rightarrow> 'p \<Rightarrow> string + 'p shape"

section \<open>Splitting\<close>

record loopContext =
  maxDepth :: int64
  curDepth :: int64
  clusterSize :: int64

definition round_coord :: "'f float_ops \<Rightarrow> 'f \<Rightarrow> 'f" where
  "round_coord fo a =
     fl_div fo (fl_round fo (fl_mul fo a (fl_of_int fo 10000000))) (fl_of_int fo 10000000)"

definition getCoordCount :: "('p, 'f) geom_ops \<Rightarrow> 'p \<Rightarrow> int64" where
  "getCoordCount g p = fold (\<lambda>c r. r + of_int64 (int c)) (coord_lengths g p) 0"

text \<open>The values of the variable of a loop \<open>for x := x; x < hi; x += unit\<close>.\<close>

partial_function (option) loop_values :: "'f float_ops \<Rightarrow> 'f \<Rightarrow> 'f \<Rightarrow> 'f \<Rightarrow> 'f list option" where
  "loop_values fo hi unit x =
     (if fl_less fo x hi
      then Option.bind (loop_values fo hi unit (fl_add fo x unit)) (\<lambda>xs. Some (x # xs))
      else Some [])"

definition rect_at ::
  "'f float_ops \<Rightarrow> ('p, 'f) geom_ops \<Rightarrow> 'f \<times> 'f \<Rightarrow> 'f \<Rightarrow> 'f \<Rightarrow> 'f \<Rightarrow> 'p list" where
  "rect_at fo g hi unit x y =
     (let x0 = round_coord fo x;
          y0 = round_coord fo y;
          x1 = round_coord fo (fl_min fo (fst hi) (fl_add fo x unit));
          y1 = round_coord fo (fl_min fo (snd hi) (fl_add fo y unit))
      in if fl_eq fo x0 x1 \<or> fl_eq fo y0 y1 then []
         else [new_polygon g [x0, y0, x0, y1, x1, y1, x1, y0, x0, y0]])"

fun rect_columns ::
  "'f float_ops \<Rightarrow> ('p, 'f) geom_ops \<Rightarrow> 'f \<Rightarrow> 'f \<times> 'f \<Rightarrow> 'f \<Rightarrow> 'f list \<Rightarrow> 'p list option" where
  "rect_columns fo g minY hi unit [] = Some []"
| "rect_columns fo g minY hi unit (x # xs) =
     (case loop_values fo (snd hi) unit minY of
        None \<Rightarrow> None
      | Some ys \<Rightarrow>
          (case rect_columns fo g minY hi unit xs of
             None \<Rightarrow> None
           | Some rects \<Rightarrow> Some (concat (map (rect_at fo g hi unit x) ys) @ rects)))"

definition grid_rects ::
  "'f float_ops \<Rightarrow> ('p, 'f) geom_ops \<Rightarrow> 'f \<times> 'f \<Rightarrow> 'f \<times> 'f \<Rightarrow> int64 \<Rightarrow> 'p list option" where
  "grid_rects fo g lo hi cluster =
     (let longerEdge = fl_max fo (fl_sub fo (fst hi) (fst lo)) (fl_sub fo (snd hi) (snd lo));
          unit = fl_div fo longerEdge (fl_of_int fo (val64 cluster))
      in case loop_values fo (fst hi) unit (fst lo) of
           None \<Rightarrow> None
         | Some xs \<Rightarrow> rect_columns fo g (snd lo) hi unit xs)"

text \<open>The polygons of the intersection with a rectangle; none when it fails or is no polygon.\<close>

definition pieces :: "('p, 'f) geom_ops \<Rightarrow> 'p \<Rightarrow> 'p \<Rightarrow> 'p list" where
  "pieces g p rect =
     (case intersection g p rect of
        Inl err \<Rightarrow> []
      | Inr (Polygon q) \<Rightarrow> [q]
      | Inr (MultiPolygon qs) \<Rightarrow> qs
      | Inr (OtherShape t) \<Rightarrow> [])"

text \<open>The loop over the pieces, with the polygons so far.\<close>

fun split_each :: "('p \<Rightarrow> 'p list \<Rightarrow> 'p list option) \<Rightarrow> 'p list \<Rightarrow> 'p list \<Rightarrow> 'p list option" where
  "split_each f [] ps = Some ps"
| "split_each f (q # qs) ps = (case f q ps of None \<Rightarrow> None | Some ps \<Rightarrow> split_each f qs ps)"

definition split_body ::
  "'f float_ops \<Rightarrow> ('p, 'f) geom_ops \<Rightarrow> ('p \<Rightarrow> 'p list \<Rightarrow> loopContext \<Rightarrow> 'p list option) \<Rightarrow>
    'p \<Rightarrow> 'p list \<Rightarrow> loopContext \<Rightarrow> 'p list option" where
  "split_body fo g recurse p ps lc =
     (if getCoordCount g p < of_int64 200 \<or> maxDepth lc \<le> curDepth lc then Some (ps @ [p])
      else if env_empty g p then Some ps
      else case env_min g p of
             None \<Rightarrow> Some ps
           | Some lo \<Rightarrow>
               (case env_max g p of
                  None \<Rightarrow> Some ps
                | Some hi \<Rightarrow>
                    (case grid_rects fo g lo hi (clusterSize lc) of
                       None \<Rightarrow> None
                     | Some rects \<Rightarrow>
                         let nlc = lc\<lparr>curDepth := curDepth lc + of_int64 1\<rparr>
                         in split_each (\<lambda>q ps. recurse q ps nlc) (concat (map (pieces g p) rects)) ps)))"

text \<open>\<open>splitPolygon\<close> with a bound on the recursion, and the bound that is enough.\<close>

primrec split_fuel ::
  "nat \<Rightarrow> 'f float_ops \<Rightarrow> ('p, 'f) geom_ops \<Rightarrow> 'p \<Rightarrow> 'p list \<Rightarrow> loopContext \<Rightarrow> 'p list option" where
  "split_fuel 0 fo g = (\<lambda>p ps lc. None)"
| "split_fuel (Suc n) fo g = split_body fo g (split_fuel n fo g)"

definition levels :: "loopContext \<Rightarrow> nat" where
  "levels lc = nat (val64 (maxDepth lc) - val64 (curDepth lc))"

definition splitPolygon ::
  "'f float_ops \<Rightarrow> ('p, 'f) geom_ops \<Rightarrow> 'p \<Rightarrow> 'p list \<Rightarrow> loopContext \<Rightarrow> 'p list option" where
  "splitPolygon fo g p ps lc = split_fuel (Suc (levels lc)) fo g p ps lc"

section \<open>\<open>Split\<close>\<close>

datatype split_error = DecodeError string | InvalidType string | EncodeError string

fun split_features ::
  "'f float_ops \<Rightarrow> ('p, 'f) geom_ops \<Rightarrow> int64 \<Rightarrow> int64 \<Rightarrow> 'p shape list \<Rightarrow> 'p list \<Rightarrow>
    (split_error + 'p list) option" where
  "split_features fo g depth cluster [] polygons = Some (Inr polygons)"
| "split_features fo g depth cluster (Polygon p # fc) polygons =
     (case splitPolygon fo g p polygons \<lparr>maxDepth = depth, curDepth = 0, clusterSize = cluster\<rparr> of
        None \<Rightarrow> None
      | Some polygons \<Rightarrow> split_features fo g depth cluster fc polygons)"
| "split_features fo g depth cluster (MultiPolygon mp # fc) polygons =
     (case split_each
             (\<lambda>p ps. splitPolygon fo g p ps
                \<lparr>maxDepth = of_int64 3, curDepth = 0, clusterSize = of_int64 3\<rparr>) mp polygons of
        None \<Rightarrow> None
      | Some polygons \<Rightarrow> split_features fo g depth cluster fc polygons)"
| "split_features fo g depth cluster (OtherShape t # fc) polygons = Some (Inl (InvalidType t))"


section \<open>What comes out\<close>

















lemma val64_3 [simp]: "val64 (of_int64 3) = 3"
  by (simp add: val64_of_int64 fits64_def)



text \<open>The arguments of \<open>Split\<close> do not reach the polygons of a \<open>MultiPolygon\<close>.\<close>

lemma Split_multi_ignores_arguments:
  "list_all (\<lambda>s. \<exists>ps. s = MultiPolygon ps) fc \<Longrightarrow>
    split_features fo g depth cluster fc ps = split_features fo g depth' cluster' fc ps"
  by (induction fc arbitrary: ps) (auto split: option.split)

section \<open>When it returns\<close>






text \<open>Exact arithmetic.\<close>

definition exact :: "rat float_ops" where
  "exact = \<lparr>fl_add = (+), fl_sub = (-), fl_mul = (*), fl_div = (/), fl_min = min, fl_max = max,
     fl_less = (<), fl_eq = (=), fl_round = \<lambda>a. of_int (round a), fl_of_int = of_int\<rparr>"

lemma exact_ops [simp]:
  "fl_sub exact = (-)" "fl_div exact = (/)" "fl_max exact = max" "fl_of_int exact = of_int"
  "fl_less exact = (<)" "fl_add exact = (+)"
  by (simp_all add: exact_def)


















end
