(* ===== verification/Serde.thy ===== *)
theory Serde
  imports Quiver_Prelude
begin

text \<open>
  \<open>serde/serde.go\<close>: the choice of the encoder by the tags of the first field of a struct. What
  reflection sees of a value is a datatype, a tag is the string that the source has, looked up
  as \<open>reflect.StructTag\<close> does; the encoders are parameters.
\<close>

section \<open>Struct tags\<close>

text \<open>
  \<open>Lookup\<close>: pairs \<open>key:"value"\<close> separated by spaces; anything else ends the tag. A value is
  the text between the quotes; one with a backslash or a line break is outside the model and ends the tag too.
\<close>

definition key_char :: "char \<Rightarrow> bool" where
  "key_char c \<longleftrightarrow> (of_char c :: nat) > 32 \<and> c \<noteq> CHR '':'' \<and> c \<noteq> CHR 0x22 \<and> c \<noteq> CHR 0x7F"

fun lookup_tag :: "nat \<Rightarrow> string \<Rightarrow> string \<Rightarrow> string option" where
  "lookup_tag 0 key tag = None"
| "lookup_tag (Suc n) key tag =
     (let tag = dropWhile (\<lambda>c. c = CHR '' '') tag;
          name = takeWhile key_char tag
      in if name = [] then None
         else case dropWhile key_char tag of
                c # d # rest \<Rightarrow>
                  if c = CHR '':'' \<and> d = CHR 0x22
                  then let val = takeWhile (\<lambda>c. c \<noteq> CHR 0x22) rest
                       in case dropWhile (\<lambda>c. c \<noteq> CHR 0x22) rest of
                            [] \<Rightarrow> None
                          | q # more \<Rightarrow>
                              if CHR 0x5C \<in> set val \<or> CHR 0x0A \<in> set val then None
                              else if name = key then Some val
                              else lookup_tag n key more
                  else None
              | _ \<Rightarrow> None)"

text \<open>Every pair takes a character at least, so the length of the tag is enough fuel.\<close>

definition Lookup :: "string \<Rightarrow> string \<Rightarrow> string option" where
  "Lookup tag key = lookup_tag (length tag) key tag"

section \<open>The choice\<close>

text \<open>A value is a struct with the tags of its fields, a pointer (nil or not), or anything else.\<close>

datatype go_value = Struct "string list" | Ptr "go_value option" | OtherValue

datatype format = JSON | YAML

definition format_of :: "go_value \<Rightarrow> format" where
  "format_of v =
     (let val = (case v of Ptr None \<Rightarrow> OtherValue | Ptr (Some w) \<Rightarrow> w | _ \<Rightarrow> v)
      in case val of
           Struct (field # _) \<Rightarrow>
             if Lookup field ''json'' \<notin> {None, Some ''-''} then JSON
             else if Lookup field ''yaml'' \<notin> {None, Some ''-''} then YAML
             else JSON
         | _ \<Rightarrow> JSON)"

definition MarshalDependingOnTag ::
  "(go_value \<Rightarrow> 'e + string) \<Rightarrow> (go_value \<Rightarrow> 'e + string) \<Rightarrow> go_value \<Rightarrow> 'e + string" where
  "MarshalDependingOnTag json_marshal yaml_marshal v =
     (case format_of v of JSON \<Rightarrow> json_marshal v | YAML \<Rightarrow> yaml_marshal v)"

section \<open>Which encoder\<close>

text \<open>A tag as a programmer writes it.\<close>

fun show_tag :: "(string \<times> string) list \<Rightarrow> string" where
  "show_tag [] = []"
| "show_tag ((k, v) # kvs) = k @ '':'' @ CHR 0x22 # v @ CHR 0x22 # '' '' @ show_tag kvs"

definition good_tag :: "(string \<times> string) list \<Rightarrow> bool" where
  "good_tag kvs \<longleftrightarrow>
     list_all (\<lambda>(k, v). k \<noteq> [] \<and> list_all key_char k \<and> CHR 0x22 \<notin> set v \<and> CHR 0x5C \<notin> set v \<and>
       CHR 0x0A \<notin> set v) kvs"

lemma key_char_special [simp]: "\<not> key_char (CHR '':'')" "\<not> key_char (CHR '' '')" "\<not> key_char (CHR 0x22)"
  by (simp_all add: key_char_def)

lemma drop_spaces_key:
  "k \<noteq> [] \<Longrightarrow> list_all key_char k \<Longrightarrow> dropWhile (\<lambda>c. c = CHR '' '') (k @ s) = k @ s"
  by (cases k) auto

lemma lookup_tag_spaces: "lookup_tag n key (CHR '' '' # tag) = lookup_tag n key tag"
  by (cases n) simp_all

lemma lookup_show_tag:
  "good_tag kvs \<Longrightarrow> length kvs < n \<Longrightarrow> lookup_tag n key (show_tag kvs) = map_of kvs key"
proof (induction kvs arbitrary: n)
  case Nil
  then show ?case by (cases n) simp_all
next
  case (Cons kv kvs)
  obtain k v where kv: "kv = (k, v)" by fastforce
  obtain m where n: "n = Suc m" using Cons.prems(2) by (cases n) auto
  have k: "k \<noteq> []" "list_all key_char k" and v: "CHR 0x22 \<notin> set v" "CHR 0x5C \<notin> set v" "CHR 0x0A \<notin> set v"
    using Cons.prems(1) kv by (simp_all add: good_tag_def)
  have key: "takeWhile key_char (k @ CHR '':'' # s) = k" "dropWhile key_char (k @ CHR '':'' # s) = CHR '':'' # s"
    for s
    using k(2) by (auto simp: takeWhile_append dropWhile_append list_all_iff)
  have val: "takeWhile (\<lambda>c. c \<noteq> CHR 0x22) (v @ CHR 0x22 # s) = v"
      "dropWhile (\<lambda>c. c \<noteq> CHR 0x22) (v @ CHR 0x22 # s) = CHR 0x22 # s" for s
    using v(1) by (auto simp: takeWhile_append dropWhile_append)
  show ?case
    using Cons k v
    by (simp add: kv n drop_spaces_key key val Let_def lookup_tag_spaces good_tag_def)
qed

lemma length_show_tag: "length kvs \<le> length (show_tag kvs)"
  by (induction kvs rule: show_tag.induct) simp_all

lemma Lookup_show_tag:
  assumes "good_tag kvs"
  shows "Lookup (show_tag kvs) key = map_of kvs key"
proof (cases kvs)
  case Nil
  then show ?thesis by (simp add: Lookup_def)
next
  case (Cons kv kvs')
  then have "length kvs < length (show_tag kvs)"
    using length_show_tag [of kvs'] by (cases kv) simp
  then show ?thesis unfolding Lookup_def by (rule lookup_show_tag [OF assms])
qed

text \<open>
  The first field decides: for a struct or a pointer to one, whose first field has a tag of the
  usual form, the YAML encoder is taken exactly when the tag has a \<open>yaml\<close> key, and no \<open>json\<close>
  key, that is not a dash; everything else goes to the JSON encoder.
\<close>

theorem Marshal_by_first_field:
  assumes "good_tag kvs" and "v = Struct (show_tag kvs # fields) \<or> v = Ptr (Some (Struct (show_tag kvs # fields)))"
  shows "MarshalDependingOnTag json yaml v =
    (if map_of kvs ''json'' \<in> {None, Some ''-''} \<and> map_of kvs ''yaml'' \<notin> {None, Some ''-''}
     then yaml v else json v)"
  using assms by (auto simp: MarshalDependingOnTag_def format_of_def Lookup_show_tag)

theorem Marshal_by_first_field_witness:
  "MarshalDependingOnTag (\<lambda>_. Inr ''json'') (\<lambda>_. Inr ''yaml'')
     (Ptr (Some (Struct [show_tag [(''yaml'', ''id'')]]))) = (Inr ''yaml'' :: string + string)"
proof -
  have "good_tag [(''yaml'', ''id'')]" by code_simp
  then show ?thesis by (subst Marshal_by_first_field) auto
qed

end
