(* ===== verification/Spec2Isabelle.thy ===== *)
theory Spec2Isabelle
  imports Raw_Access Raw_Merge Raw_Diff Safe_Map Safe_Channel Cache Pool Fan Balanced_Pool
    K8s_Yaml K8s_Cluster K8s_Watch Firestore Geo_Split Serde
begin

text \<open>
  Goquiver is a collection of Go packages: \<open>raw\<close> (lookups, merge and difference of untyped nested
  maps), \<open>safe\<close> (a locked map and an unlimited channel), \<open>cache\<close> (expiry and refresh on top of the
  locked map), \<open>pool\<close> and \<open>fan\<close> (a pool of goroutines and a fan-out on top of it),
  \<open>pool/balanced\<close> (a pool that gives a task to the worker with the least work, on top of the
  unlimited channel), \<open>k8s\<close> (manifests and operations on a Kubernetes cluster), \<open>firestore\<close>
  (documents under a namespace), \<open>geo\<close> (splitting of polygons) and \<open>serde\<close> (choice of an encoder).
  This development models all of them; the definitions carry the names of the source, with a
  prefix or suffix where a name clashes.

  \<^bold>\<open>How Go is modelled.\<close>
  \<^item> A call that may fail or panic is an \<open>outcome\<close>, or a pair of an optional error and a state, as
    the source returns it. An \<open>int\<close>, an \<open>int64\<close> and a \<open>time.Duration\<close> are the 64-bit words \<open>int64\<close>
    of the prelude, whose addition wraps around.
  \<^item> A built-in map is an association list with distinct keys whose order is the order that
    \<open>range\<close> happens to choose; what does not depend on the order is proved not to.
  \<^item> Goroutines, locks and channels are labelled step relations, one constructor for each step
    that another goroutine can see, and \<open>run\<close> is a sequence of steps. An unbuffered channel is a
    rendezvous, a single event of both sides. The locales \<open>history_invariant\<close> and
    \<open>state_invariant\<close> lift what holds of a step to runs.
  \<^item> Time, the network and what others do meanwhile are parts of a world that is passed through,
    or events of a run or a schedule.
  \<^item> What is not under \<open>src/\<close> is a parameter: the refreshers and the clock of a cache, the JSON and
    YAML codecs, the tree of GoLLRB, the Kubernetes API server, the Firestore client, the geometry
    library and the arithmetic of \<open>float64\<close>. What the code relies on is a named predicate
    (\<open>llrb\<close>, \<open>api_ok\<close>, \<open>writes_ok\<close>, \<open>reads_ok\<close>), and a concrete instance of each shows that it can
    hold.

  \<^bold>\<open>Theories.\<close>
  \<^item> \<open>Quiver_Prelude\<close>: outcomes, built-in maps, \<open>int64\<close>, runs, and the interface of maps
    (\<open>key_store\<close>).
  \<^item> \<open>Raw_Value\<close>, \<open>Raw_Access\<close>, \<open>Raw_Merge\<close>, \<open>Raw_Diff\<close> (\<open>raw/raw.go\<close>, \<open>raw/diff.go\<close>): values with
    their dynamic types, and their meaning, in which a map is a function. \<open>Merge\<close> and \<open>diff\<close>
    refine recursive functions on meanings; \<open>ChainGet\<close> is the look-up along a path; the errors and
    the panics are characterised exactly.
  \<^item> \<open>Safe_Map\<close> (\<open>safe/map.go\<close>): the methods as one caller sees them, an instance of \<open>key_store\<close>, and
    as threads run them under the \<open>RWMutex\<close>: linearizability, mutual exclusion, no deadlock.
  \<^item> \<open>Safe_Channel\<close> (\<open>safe/channel.go\<close>): the manager goroutine: first in first out, what \<open>Finalize\<close>
    returns, that a sender never waits, and that the manager stops.
  \<^item> \<open>Cache\<close> (\<open>cache/cache.go\<close>): \<open>Set\<close>, \<open>Get\<close>, \<open>Delete\<close> over any clock and refreshers, and the
    goroutine \<open>refreshAll\<close>, as one sweep and an access at a time: values in date, errors, what a
    sweep does, what callers in between can break.
  \<^item> \<open>Pool\<close> (\<open>pool/pool.go\<close>) and \<open>Fan\<close> (\<open>fan/fan.go\<close>): the caller, the workers and the goroutine of
    \<open>UntilFinished\<close>; every task is run once, never more at a time than the size, and calls
    return. The fan-out uses the pool through the interface \<open>task_pool\<close> alone and is \<open>map\<close>.
  \<^item> \<open>Balanced_Worker\<close>, \<open>Balanced_Pool\<close> (\<open>pool/balanced/pool.go\<close>): a worker reads from the channel
    of \<open>Safe_Channel\<close>, through the interface \<open>fifo\<close>; what becomes of a task, what the estimate of
    a worker is, how even the load is.
  \<^item> \<open>K8s_Yaml\<close>, \<open>K8s_Resources\<close>, \<open>K8s_Wait\<close>, \<open>K8s_Ops\<close>, \<open>K8s_Cluster\<close>, \<open>K8s_Watch\<close> (\<open>k8s/k8s.go\<close>,
    \<open>k8s/def.go\<close>): manifests and the round trip; kinds, \<open>Init\<close>, \<open>Parse\<close>, \<open>EncodeYAML\<close> and the API
    server; the waits; \<open>Rollout\<close>, \<open>Remove\<close>, \<open>List\<close>, \<open>Get\<close> and what they do to the objects of the
    server; the watcher, whose calls are the edges of what it observes.
  \<^item> \<open>Firestore\<close> (\<open>firestore/firestore.go\<close>): paths, their prefix and the regular expression that
    strips it, the operations; namespaces are separate, listed paths come back.
  \<^item> \<open>Geo_Split\<close> (\<open>geo/split.go\<close>): the recursion over grids; what comes out and that it ends.
  \<^item> \<open>Serde\<close> (\<open>serde/serde.go\<close>): struct tags and the choice of the encoder.

  \<^bold>\<open>Bounds and fuel.\<close> The recursion of \<open>splitPolygon\<close> is bounded by \<open>levels\<close>, the depth that is
  left, which is shown to be enough; its loops over coordinates are a partial function, so a loop
  that does not end is a result of its own. A wait of \<open>k8s\<close> consumes a schedule and is still
  waiting when it ends. The look-up in a struct tag uses the length of the tag, as every pair
  takes a character.

  \<^bold>\<open>Not modelled.\<close> Logging; \<open>DecodeYAML\<close>, which only calls the decoder; the clients' rate limits
  that \<open>Init\<close> sets; the pollers of \<open>k8s\<close> that outlive their call, which only read; that a
  panic in a goroutine ends the whole program (the goroutine is dead in the model); values of
  struct tags with escapes; regular expressions of namespaces with metacharacters, which are a
  parameter; the rounding of \<open>float64\<close>, which is a parameter as well; white space beyond ASCII.
\<close>

end
